theory Spec2Isabelle
  imports Complex_Main
begin

section \<open>Common conventions\<close>

text \<open>
  The three scripts compute on NumPy arrays of 64-bit floats. The embedding uses the
  real numbers in their place: every arithmetic identity below is exact, and rounding
  is outside the model. Python exceptions and \<^verbatim>\<open>sys.exit\<close> calls are values of
  \<open>py_error\<close>; a function that can raise returns \<open>py_error + 'a\<close>.
\<close>

datatype py_error =
    ValueError
  | IndexError
  | EmptyMesh
  | FlatMesh
  | NoValidBodySegment
  | CutResultEmpty
  | Watertight
  | NotSeparable
  | NetworkXNoPath
  | DivisionByZero

type_synonym vec2 = "real \<times> real"

type_synonym vec3 = "real \<times> real \<times> real"

section \<open>TextureRemapper: scripts/uv\_repack.py\<close>

subsection \<open>Barycentric weights (main, lines 119-135)\<close>

definition sub2 :: "vec2 \<Rightarrow> vec2 \<Rightarrow> vec2" where
  "sub2 a b = (fst a - fst b, snd a - snd b)"

definition dot2 :: "vec2 \<Rightarrow> vec2 \<Rightarrow> real" where
  "dot2 a b = fst a * fst b + snd a * snd b"

definition denom_eps :: real where
  "denom_eps = 1 / 10 ^ 8"

text \<open>\<^verbatim>\<open>denom[np.abs(denom) < 1e-8] = 1e-8\<close>\<close>

definition clamp_denom :: "real \<Rightarrow> real" where
  "clamp_denom denom = (if \<bar>denom\<bar> < denom_eps then denom_eps else denom)"

text \<open>
  Division as the array code performs it: a zero divisor is the one case in which
  NumPy does not produce a finite quotient (it reports a division by zero and stores
  inf or nan); that case is \<open>None\<close>.
\<close>

definition fdiv :: "real \<Rightarrow> real \<Rightarrow> real option" where
  "fdiv x y = (if y = 0 then None else Some (x / y))"

definition bary_denom :: "vec2 \<Rightarrow> vec2 \<Rightarrow> vec2 \<Rightarrow> real" where
  "bary_denom A B C =
     (let v0 = sub2 B A; v1 = sub2 C A;
          d00 = dot2 v0 v0; d01 = dot2 v0 v1; d11 = dot2 v1 v1
      in clamp_denom (d00 * d11 - d01 * d01))"

text \<open>
  The weights \<open>(u, v, w)\<close> of the point \<open>P\<close> in the triangle \<open>A B C\<close>. Over the
  reals both numerators are exactly zero on a zero-area triangle; in double arithmetic
  they are rounding noise there, which the clamped denominator then divides by 1e-8.
\<close>

definition barycentric :: "vec2 \<Rightarrow> vec2 \<Rightarrow> vec2 \<Rightarrow> vec2 \<Rightarrow> (real \<times> real \<times> real) option" where
  "barycentric A B C P =
     (let v0 = sub2 B A; v1 = sub2 C A; v2 = sub2 P A;
          d00 = dot2 v0 v0; d01 = dot2 v0 v1; d11 = dot2 v1 v1;
          d20 = dot2 v2 v0; d21 = dot2 v2 v1;
          denom = clamp_denom (d00 * d11 - d01 * d01)
      in case fdiv (d11 * d20 - d01 * d21) denom of
           None \<Rightarrow> None
         | Some v \<Rightarrow>
             (case fdiv (d00 * d21 - d01 * d20) denom of
                None \<Rightarrow> None
              | Some w \<Rightarrow> Some (1 - v - w, v, w)))"

subsection \<open>OBJ parsing (load\_obj\_uv, lines 6-37)\<close>

text \<open>
  Lines are ASCII strings. \<open>split_ws\<close> is \<^verbatim>\<open>str.split()\<close>: it cuts at runs of
  whitespace and yields no empty piece. \<open>split_on\<close> is \<^verbatim>\<open>str.split(sep)\<close>
  for a one-character separator: it yields one piece more than there are separators,
  empty pieces included.
\<close>

definition is_space :: "char \<Rightarrow> bool" where
  "is_space c = (c \<in> set [CHR '' '', CHR 0x09, CHR 0x0A, CHR 0x0B, CHR 0x0C, CHR 0x0D,
                            CHR 0x1C, CHR 0x1D, CHR 0x1E, CHR 0x1F])"

fun split_ws_aux :: "string \<Rightarrow> string \<Rightarrow> string list" where
  "split_ws_aux [] cur = (if cur = [] then [] else [cur])"
| "split_ws_aux (c # cs) cur =
     (if is_space c then (if cur = [] then split_ws_aux cs [] else cur # split_ws_aux cs [])
      else split_ws_aux cs (cur @ [c]))"

definition split_ws :: "string \<Rightarrow> string list" where
  "split_ws s = split_ws_aux s []"

fun split_on_aux :: "char \<Rightarrow> string \<Rightarrow> string \<Rightarrow> string list" where
  "split_on_aux sep [] cur = [cur]"
| "split_on_aux sep (c # cs) cur =
     (if c = sep then cur # split_on_aux sep cs [] else split_on_aux sep cs (cur @ [c]))"

definition split_on :: "char \<Rightarrow> string \<Rightarrow> string list" where
  "split_on sep s = split_on_aux sep s []"

definition starts_with :: "string \<Rightarrow> string \<Rightarrow> bool" where
  "starts_with pre s = (take (length pre) s = pre)"

text \<open>
  \<^verbatim>\<open>int(s)\<close> on a piece without whitespace: an optional sign, then decimal digits,
  single underscores allowed between digits. \<open>None\<close> is Python's ValueError.
\<close>

definition is_digit :: "char \<Rightarrow> bool" where
  "is_digit c = (48 \<le> (of_char c :: nat) \<and> (of_char c :: nat) \<le> 57)"

fun digits_ok :: "string \<Rightarrow> bool" where
  "digits_ok [] = False"
| "digits_ok [c] = is_digit c"
| "digits_ok (c # d # cs) =
     (is_digit c \<and> (if d = CHR ''_'' then digits_ok cs else digits_ok (d # cs)))"

definition digits_value :: "string \<Rightarrow> int" where
  "digits_value s =
     foldl (\<lambda>acc c. 10 * acc + (int (of_char c) - 48)) 0 (filter (\<lambda>c. c \<noteq> CHR ''_'') s)"

definition py_int :: "string \<Rightarrow> int option" where
  "py_int s =
     (case s of
        [] \<Rightarrow> None
      | c # cs \<Rightarrow>
          if c = CHR ''-'' then (if digits_ok cs then Some (- digits_value cs) else None)
          else if c = CHR ''+'' then (if digits_ok cs then Some (digits_value cs) else None)
          else (if digits_ok s then Some (digits_value s) else None))"

type_synonym uv_face = "int \<times> int \<times> int"

text \<open>
  A \<^verbatim>\<open>vt\<close> line. \<^verbatim>\<open>float\<close> is the parameter \<open>py_float\<close> (\<open>None\<close>: ValueError);
  a missing field is an IndexError. The V coordinate is stored flipped.
\<close>

definition parse_vt :: "(string \<Rightarrow> real option) \<Rightarrow> string \<Rightarrow> py_error + vec2" where
  "parse_vt py_float line =
     (let parts = split_ws line in
      if length parts < 2 then Inl IndexError
      else case py_float (parts ! 1) of
             None \<Rightarrow> Inl ValueError
           | Some u \<Rightarrow>
               if length parts < 3 then Inl IndexError
               else (case py_float (parts ! 2) of
                       None \<Rightarrow> Inl ValueError
                     | Some v \<Rightarrow> Inr (u, 1 - v)))"

text \<open>The test \<^verbatim>\<open>len(vals) > 1 and vals[1]\<close> on one vertex entry of a face line.\<close>

definition carries_uv :: "string \<Rightarrow> bool" where
  "carries_uv p = (let vals = split_on CHR ''/'' p in length vals > 1 \<and> vals ! 1 \<noteq> [])"

fun collect_uv_indices :: "string list \<Rightarrow> py_error + int list" where
  "collect_uv_indices [] = Inr []"
| "collect_uv_indices (p # ps) =
     (let vals = split_on CHR ''/'' p in
      if length vals > 1 \<and> vals ! 1 \<noteq> [] then
        (case py_int (vals ! 1) of
           None \<Rightarrow> Inl ValueError
         | Some k \<Rightarrow>
             (case collect_uv_indices ps of
                Inl e \<Rightarrow> Inl e
              | Inr r \<Rightarrow> Inr ((k - 1) # r)))
      else collect_uv_indices ps)"

text \<open>\<^verbatim>\<open>for i in range(len(uv_indices) - 2)\<close>: no triple when fewer than three indices.\<close>

definition fan_triangles :: "int list \<Rightarrow> uv_face list" where
  "fan_triangles uv_indices =
     map (\<lambda>i. (uv_indices ! 0, uv_indices ! (i + 1), uv_indices ! (i + 2)))
         [0 ..< length uv_indices - 2]"

definition parse_face_line :: "string \<Rightarrow> py_error + uv_face list" where
  "parse_face_line line =
     (case collect_uv_indices (tl (split_ws line)) of
        Inl e \<Rightarrow> Inl e
      | Inr uv_indices \<Rightarrow> Inr (fan_triangles uv_indices))"

fun load_lines ::
  "(string \<Rightarrow> real option) \<Rightarrow> string list \<Rightarrow> vec2 list \<Rightarrow> uv_face list
   \<Rightarrow> py_error + (vec2 list \<times> uv_face list)" where
  "load_lines py_float [] uvs uv_faces = Inr (uvs, uv_faces)"
| "load_lines py_float (line # lines) uvs uv_faces =
     (if starts_with ''vt '' line then
        (case parse_vt py_float line of
           Inl e \<Rightarrow> Inl e
         | Inr uv \<Rightarrow> load_lines py_float lines (uvs @ [uv]) uv_faces)
      else if starts_with ''f '' line then
        (case parse_face_line line of
           Inl e \<Rightarrow> Inl e
         | Inr fs \<Rightarrow> load_lines py_float lines uvs (uv_faces @ fs))
      else load_lines py_float lines uvs uv_faces)"

definition load_obj_uv ::
  "(string \<Rightarrow> real option) \<Rightarrow> string list \<Rightarrow> py_error + (vec2 list \<times> uv_face list)" where
  "load_obj_uv py_float lines = load_lines py_float lines [] []"

subsection \<open>Face arrays and face-count reconciliation (main, lines 49-58)\<close>

text \<open>
  \<^verbatim>\<open>load_obj_uv\<close> returns \<^verbatim>\<open>np.array(uv_faces)\<close>. For a non-empty list of
  triples that is an integer array with one row per face. For the empty list it is a
  float64 array of shape \<open>(0,)\<close>. Slicing keeps the element type, and an array of
  floats used as an index raises IndexError, also when it is empty.
\<close>

datatype face_array = FloatEmpty | IntRows "uv_face list"

definition np_array_faces :: "uv_face list \<Rightarrow> face_array" where
  "np_array_faces uv_faces = (if uv_faces = [] then FloatEmpty else IntRows uv_faces)"

definition rows_of :: "face_array \<Rightarrow> uv_face list" where
  "rows_of arr = (case arr of FloatEmpty \<Rightarrow> [] | IntRows fs \<Rightarrow> fs)"

definition len_faces :: "face_array \<Rightarrow> nat" where
  "len_faces arr = length (rows_of arr)"

text \<open>\<^verbatim>\<open>arr[:k]\<close>\<close>

definition slice_faces :: "nat \<Rightarrow> face_array \<Rightarrow> face_array" where
  "slice_faces k arr = (case arr of FloatEmpty \<Rightarrow> FloatEmpty | IntRows fs \<Rightarrow> IntRows (take k fs))"

text \<open>The decimal digits of a number, as an f-string prints it.\<close>

fun str_of_nat :: "nat \<Rightarrow> string" where
  "str_of_nat n =
     (if n < 10 then [char_of (48 + n)]
      else str_of_nat (n div 10) @ [char_of (48 + n mod 10)])"

definition mismatch_warning :: "nat \<Rightarrow> nat \<Rightarrow> string" where
  "mismatch_warning n_old n_new =
     ''Warning: Face count mismatch! Old: '' @ str_of_nat n_old @ '', New: '' @ str_of_nat n_new"

text \<open>
  Lines 53-58. The result carries the lines printed by the step (the warning, when
  there is one) and the two face arrays the rest of \<^verbatim>\<open>main\<close> goes on with.
\<close>

definition match_face_counts ::
  "face_array \<Rightarrow> face_array \<Rightarrow> string list \<times> face_array \<times> face_array" where
  "match_face_counts old_faces new_faces =
     (if len_faces old_faces \<noteq> len_faces new_faces then
        (let min_len = min (len_faces old_faces) (len_faces new_faces)
         in ([mismatch_warning (len_faces old_faces) (len_faces new_faces)],
             slice_faces min_len old_faces, slice_faces min_len new_faces))
      else ([], old_faces, new_faces))"

subsection \<open>Triangle ownership map (main, lines 72-100)\<close>

text \<open>
  NumPy indexing of a one-dimensional array by an integer: a negative index counts from
  the end, an index out of range raises IndexError.
\<close>

definition np_get :: "'a list \<Rightarrow> int \<Rightarrow> py_error + 'a" where
  "np_get arr idx =
     (if 0 \<le> idx \<and> idx < int (length arr) then Inr (arr ! nat idx)
      else if idx < 0 \<and> - int (length arr) \<le> idx then Inr (arr ! nat (int (length arr) + idx))
      else Inl IndexError)"

type_synonym tri2 = "vec2 \<times> vec2 \<times> vec2"

text \<open>A pixel is \<open>(x, y)\<close>: column, then row.\<close>

type_synonym cell = "nat \<times> nat"

definition scale2 :: "nat \<Rightarrow> nat \<Rightarrow> vec2 \<Rightarrow> vec2" where
  "scale2 w h p = (fst p * real w, snd p * real h)"

text \<open>\<^verbatim>\<open>uvs[face]\<close>: the three corners of one face.\<close>

definition lookup_tri :: "vec2 list \<Rightarrow> uv_face \<Rightarrow> py_error + tri2" where
  "lookup_tri uvs f =
     (case f of (a, b, c) \<Rightarrow>
        (case np_get uvs a of
           Inl e \<Rightarrow> Inl e
         | Inr A \<Rightarrow>
             (case np_get uvs b of
                Inl e \<Rightarrow> Inl e
              | Inr B \<Rightarrow>
                  (case np_get uvs c of
                     Inl e \<Rightarrow> Inl e
                   | Inr C \<Rightarrow> Inr (A, B, C)))))"

text \<open>\<^verbatim>\<open>uvs[face] * [dst_w, dst_h]\<close> for one face.\<close>

definition gather_tri :: "nat \<Rightarrow> nat \<Rightarrow> vec2 list \<Rightarrow> uv_face \<Rightarrow> py_error + tri2" where
  "gather_tri w h uvs f =
     (case lookup_tri uvs f of
        Inl e \<Rightarrow> Inl e
      | Inr (A, B, C) \<Rightarrow> Inr (scale2 w h A, scale2 w h B, scale2 w h C))"

text \<open>The same for every row of an integer face array.\<close>

fun gather_tris :: "nat \<Rightarrow> nat \<Rightarrow> vec2 list \<Rightarrow> uv_face list \<Rightarrow> py_error + tri2 list" where
  "gather_tris w h uvs [] = Inr []"
| "gather_tris w h uvs (f # fs) =
     (case gather_tri w h uvs f of
        Inl e \<Rightarrow> Inl e
      | Inr t \<Rightarrow>
          (case gather_tris w h uvs fs of
             Inl e \<Rightarrow> Inl e
           | Inr ts \<Rightarrow> Inr (t # ts)))"

text \<open>
  \<^verbatim>\<open>draw.polygon(poly, fill)\<close> is PIL code: which pixels of the image a polygon
  covers is the parameter \<open>footprint\<close>. Drawing stores \<open>fill\<close> in every covered pixel
  of the \<open>w\<close> by \<open>h\<close> image and leaves the others as they were.
\<close>

definition covers :: "(tri2 \<Rightarrow> cell \<Rightarrow> bool) \<Rightarrow> nat \<Rightarrow> nat \<Rightarrow> tri2 \<Rightarrow> cell \<Rightarrow> bool" where
  "covers footprint w h poly p = (fst p < w \<and> snd p < h \<and> footprint poly p)"

definition draw_polygon ::
  "(tri2 \<Rightarrow> cell \<Rightarrow> bool) \<Rightarrow> nat \<Rightarrow> nat \<Rightarrow> tri2 \<Rightarrow> nat \<Rightarrow> (cell \<Rightarrow> nat) \<Rightarrow> (cell \<Rightarrow> nat)" where
  "draw_polygon footprint w h poly fill img =
     (\<lambda>p. if covers footprint w h poly p then fill else img p)"

text \<open>\<^verbatim>\<open>for i, tri in enumerate(tri_uvs): draw.polygon(poly, fill=i+1)\<close>\<close>

fun draw_faces ::
  "(tri2 \<Rightarrow> cell \<Rightarrow> bool) \<Rightarrow> nat \<Rightarrow> nat \<Rightarrow> tri2 list \<Rightarrow> nat \<Rightarrow> (cell \<Rightarrow> nat) \<Rightarrow> (cell \<Rightarrow> nat)" where
  "draw_faces footprint w h [] i img = img"
| "draw_faces footprint w h (tri # tris) i img =
     draw_faces footprint w h tris (Suc i) (draw_polygon footprint w h tri (i + 1) img)"

definition face_map_of ::
  "(tri2 \<Rightarrow> cell \<Rightarrow> bool) \<Rightarrow> nat \<Rightarrow> nat \<Rightarrow> tri2 list \<Rightarrow> (cell \<Rightarrow> nat)" where
  "face_map_of footprint w h tri_uvs = draw_faces footprint w h tri_uvs 0 (\<lambda>p. 0)"

subsection \<open>Resampling one covered pixel (main, lines 95-152)\<close>

text \<open>
  The array code handles all covered pixels at once, each independently of the others.
  For the pixel \<open>p\<close>: the weights of \<open>P = (x, y)\<close> in the new-UV triangle of a face,
  then the weighted sum of the corners of the old-UV triangle of a face.
\<close>

definition interp_uv :: "real \<times> real \<times> real \<Rightarrow> tri2 \<Rightarrow> vec2" where
  "interp_uv wts t =
     (case wts of (u, v, w) \<Rightarrow>
        (case t of (A, B, C) \<Rightarrow>
           (u * fst A + v * fst B + w * fst C, u * snd A + v * snd B + w * snd C)))"

definition resample ::
  "nat \<Rightarrow> nat \<Rightarrow> vec2 list \<Rightarrow> vec2 list \<Rightarrow> uv_face \<Rightarrow> uv_face \<Rightarrow> cell \<Rightarrow> py_error + vec2" where
  "resample w h old_uvs new_uvs old_face new_face p =
     (case gather_tri w h new_uvs new_face of
        Inl e \<Rightarrow> Inl e
      | Inr (A, B, C) \<Rightarrow>
          (case barycentric A B C (real (fst p), real (snd p)) of
             None \<Rightarrow> Inl DivisionByZero
           | Some weights \<Rightarrow>
               (case lookup_tri old_uvs old_face of
                  Inl e \<Rightarrow> Inl e
                | Inr tris_old \<Rightarrow> Inr (interp_uv weights tris_old))))"

text \<open>
  \<^verbatim>\<open>face_indices = face_map[pixel_y, pixel_x] - 1\<close>, then the rows
  \<^verbatim>\<open>new_faces[face_indices]\<close> and \<^verbatim>\<open>old_faces[face_indices]\<close>.
\<close>

definition pixel_target ::
  "nat \<Rightarrow> nat \<Rightarrow> vec2 list \<Rightarrow> uv_face list \<Rightarrow> vec2 list \<Rightarrow> uv_face list \<Rightarrow> (cell \<Rightarrow> nat)
   \<Rightarrow> cell \<Rightarrow> py_error + vec2" where
  "pixel_target w h old_uvs old_faces new_uvs new_faces face_map p =
     (let face_index = int (face_map p) - 1 in
      case np_get new_faces face_index of
        Inl e \<Rightarrow> Inl e
      | Inr new_face \<Rightarrow>
          (case np_get old_faces face_index of
             Inl e \<Rightarrow> Inl e
           | Inr old_face \<Rightarrow> resample w h old_uvs new_uvs old_face new_face p))"

text \<open>
  The weights alone (lines 100-135): the row of the pixel's face in \<^verbatim>\<open>new_faces\<close>,
  its triangle in pixel units, and the weights of the pixel's index \<open>(x, y)\<close> in it.
\<close>

definition pixel_weights ::
  "nat \<Rightarrow> nat \<Rightarrow> vec2 list \<Rightarrow> uv_face list \<Rightarrow> (cell \<Rightarrow> nat) \<Rightarrow> cell
   \<Rightarrow> py_error + (real \<times> real \<times> real)" where
  "pixel_weights w h new_uvs new_faces face_map p =
     (case np_get new_faces (int (face_map p) - 1) of
        Inl e \<Rightarrow> Inl e
      | Inr new_face \<Rightarrow>
          (case gather_tri w h new_uvs new_face of
             Inl e \<Rightarrow> Inl e
           | Inr (A, B, C) \<Rightarrow>
               (case barycentric A B C (real (fst p), real (snd p)) of
                  None \<Rightarrow> Inl DivisionByZero
                | Some weights \<Rightarrow> Inr weights)))"

text \<open>The denominator of a triangle before the clamp.\<close>

definition raw_denom :: "vec2 \<Rightarrow> vec2 \<Rightarrow> vec2 \<Rightarrow> real" where
  "raw_denom A B C =
     dot2 (sub2 B A) (sub2 B A) * dot2 (sub2 C A) (sub2 C A)
       - dot2 (sub2 B A) (sub2 C A) * dot2 (sub2 B A) (sub2 C A)"

subsection \<open>main from the parsed arrays to the sampling coordinates (lines 53-152)\<close>

text \<open>
  Line 78, \<^verbatim>\<open>new_uvs[new_faces] * [dst_w, dst_h]\<close>, on the arrays: a float face
  array raises IndexError, an index out of range raises IndexError, and when the UV
  array is empty (shape \<open>(0,)\<close>, no second axis) and no lookup has failed, the product
  with the pair \<^verbatim>\<open>[dst_w, dst_h]\<close> cannot be broadcast and raises ValueError.
\<close>

definition tri_uvs_of :: "nat \<Rightarrow> nat \<Rightarrow> vec2 list \<Rightarrow> face_array \<Rightarrow> py_error + tri2 list" where
  "tri_uvs_of w h uvs faces_arr =
     (case faces_arr of
        FloatEmpty \<Rightarrow> Inl IndexError
      | IntRows fs \<Rightarrow>
          (case gather_tris w h uvs fs of
             Inl e \<Rightarrow> Inl e
           | Inr ts \<Rightarrow> if uvs = [] then Inl ValueError else Inr ts))"

fun collect_all :: "('a \<Rightarrow> py_error + 'b) \<Rightarrow> 'a list \<Rightarrow> py_error + 'b list" where
  "collect_all f [] = Inr []"
| "collect_all f (x # xs) =
     (case f x of
        Inl e \<Rightarrow> Inl e
      | Inr y \<Rightarrow> (case collect_all f xs of Inl e \<Rightarrow> Inl e | Inr ys \<Rightarrow> Inr (y # ys)))"

text \<open>The pixels of the image in the order of \<^verbatim>\<open>np.where\<close>: row by row.\<close>

definition all_cells :: "nat \<Rightarrow> nat \<Rightarrow> cell list" where
  "all_cells w h = concat (map (\<lambda>y. map (\<lambda>x. (x, y)) [0 ..< w]) [0 ..< h])"

text \<open>
  The result is what was printed, and then either the exception that ends
  \<^verbatim>\<open>main\<close> or the ownership map with the sampling coordinates of every covered
  pixel. Line 143, \<^verbatim>\<open>old_uvs[old_faces[face_indices]]\<close>, raises IndexError on a
  float face array, whatever the pixels; line 148 cannot broadcast the weights against
  the lookups in an empty UV array.
\<close>

definition remap_main ::
  "(tri2 \<Rightarrow> cell \<Rightarrow> bool) \<Rightarrow> nat \<Rightarrow> nat \<Rightarrow> vec2 list \<Rightarrow> face_array \<Rightarrow> vec2 list \<Rightarrow> face_array
   \<Rightarrow> string list \<times> (py_error + ((cell \<Rightarrow> nat) \<times> (cell \<times> vec2) list))" where
  "remap_main footprint dst_w dst_h old_uvs old_faces0 new_uvs new_faces0 =
     (case match_face_counts old_faces0 new_faces0 of
        (printed, old_faces, new_faces) \<Rightarrow>
          (printed,
           (case tri_uvs_of dst_w dst_h new_uvs new_faces of
              Inl e \<Rightarrow> Inl e
            | Inr tri_uvs \<Rightarrow>
                (case old_faces of
                   FloatEmpty \<Rightarrow> Inl IndexError
                 | IntRows old_rows \<Rightarrow>
                     (case collect_all
                             (pixel_target dst_w dst_h old_uvs old_rows new_uvs (rows_of new_faces)
                                (face_map_of footprint dst_w dst_h tri_uvs))
                             (filter (\<lambda>p. face_map_of footprint dst_w dst_h tri_uvs p > 0)
                                (all_cells dst_w dst_h)) of
                        Inl e \<Rightarrow> Inl e
                      | Inr target_uv \<Rightarrow>
                          if old_uvs = [] then Inl ValueError
                          else Inr (face_map_of footprint dst_w dst_h tri_uvs,
                                    zip (filter (\<lambda>p. face_map_of footprint dst_w dst_h tri_uvs p > 0)
                                           (all_cells dst_w dst_h))
                                        target_uv))))))"

subsection \<open>A footprint of corner pixels\<close>

text \<open>
  \<^verbatim>\<open>ImageDraw.polygon\<close> takes the corner coordinates at their integer parts and
  fills the polygon of those corners, the corners included. \<open>corner_footprint\<close> holds
  exactly the three corner pixels of a triangle with non-negative coordinates: the part
  of such a footprint that the example of a covered corner needs.
\<close>

definition trunc_cell :: "vec2 \<Rightarrow> cell" where
  "trunc_cell q = (nat \<lfloor>fst q\<rfloor>, nat \<lfloor>snd q\<rfloor>)"

definition corner_footprint :: "tri2 \<Rightarrow> cell \<Rightarrow> bool" where
  "corner_footprint t p =
     (case t of (A, B, C) \<Rightarrow> p = trunc_cell A \<or> p = trunc_cell B \<or> p = trunc_cell C)"

section \<open>MeshAligner and CylinderSegmenter: scripts/preprocess.py\<close>

subsection \<open>Rotation onto the Z axis (align\_robust, lines 42-51)\<close>

definition x_of :: "vec3 \<Rightarrow> real" where
  "x_of v = fst v"

definition y_of :: "vec3 \<Rightarrow> real" where
  "y_of v = fst (snd v)"

definition z_of :: "vec3 \<Rightarrow> real" where
  "z_of v = snd (snd v)"

definition cross3 :: "vec3 \<Rightarrow> vec3 \<Rightarrow> vec3" where
  "cross3 a b =
     (y_of a * z_of b - z_of a * y_of b,
      z_of a * x_of b - x_of a * z_of b,
      x_of a * y_of b - y_of a * x_of b)"

definition dot3 :: "vec3 \<Rightarrow> vec3 \<Rightarrow> real" where
  "dot3 a b = x_of a * x_of b + y_of a * y_of b + z_of a * z_of b"

definition norm3 :: "vec3 \<Rightarrow> real" where
  "norm3 a = sqrt (dot3 a a)"

definition divide3 :: "vec3 \<Rightarrow> real \<Rightarrow> vec3" where
  "divide3 a c = (x_of a / c, y_of a / c, z_of a / c)"

text \<open>\<^verbatim>\<open>np.clip(x, lo, hi)\<close>\<close>

definition clip :: "real \<Rightarrow> real \<Rightarrow> real \<Rightarrow> real" where
  "clip x lo hi = min (max x lo) hi"

text \<open>
  \<^verbatim>\<open>trimesh.transformations.rotation_matrix(angle, direction)\<close> is library code: it
  normalises the direction \<open>d\<close> and returns
  \<open>cos a I + (1 - cos a) d d\<^sup>T + sin a [d]\<^sub>\<times>\<close>. The model keeps the rotation
  block, as three rows; \<^verbatim>\<open>mesh.apply_transform\<close> multiplies every vertex by it.
\<close>

type_synonym mat3 = "vec3 \<times> vec3 \<times> vec3"

definition rotation_matrix :: "real \<Rightarrow> vec3 \<Rightarrow> mat3" where
  "rotation_matrix angle direction =
     (let sina = sin angle; cosa = cos angle;
          d = divide3 direction (norm3 direction);
          dx = x_of d; dy = y_of d; dz = z_of d
      in ((cosa + dx * dx * (1 - cosa), dx * dy * (1 - cosa) - dz * sina, dx * dz * (1 - cosa) + dy * sina),
          (dy * dx * (1 - cosa) + dz * sina, cosa + dy * dy * (1 - cosa), dy * dz * (1 - cosa) - dx * sina),
          (dz * dx * (1 - cosa) - dy * sina, dz * dy * (1 - cosa) + dx * sina, cosa + dz * dz * (1 - cosa))))"

definition mat_vec :: "mat3 \<Rightarrow> vec3 \<Rightarrow> vec3" where
  "mat_vec R v = (case R of (r0, r1, r2) \<Rightarrow> (dot3 r0 v, dot3 r1 v, dot3 r2 v))"

definition align_tol :: real where
  "align_tol = 1 / 10 ^ 6"

definition target_axis :: vec3 where
  "target_axis = (0, 0, 1)"

text \<open>The rotation of step 4, or \<open>None\<close> when the step is skipped.\<close>

definition align_rotation :: "vec3 \<Rightarrow> mat3 option" where
  "align_rotation principal_axis =
     (let rotation_axis = cross3 principal_axis target_axis;
          norm = norm3 rotation_axis
      in if norm > align_tol then
           (let rotation_axis' = divide3 rotation_axis norm;
                angle = arccos (clip (dot3 principal_axis target_axis) (- 1) 1)
            in Some (rotation_matrix angle rotation_axis'))
         else None)"

text \<open>Where step 4 takes a direction \<open>v\<close> of the mesh.\<close>

definition apply_alignment :: "vec3 \<Rightarrow> vec3 \<Rightarrow> vec3" where
  "apply_alignment principal_axis v =
     (case align_rotation principal_axis of None \<Rightarrow> v | Some R \<Rightarrow> mat_vec R v)"

subsection \<open>Radius profile (extract\_stable\_cylinder, lines 66-95)\<close>

text \<open>\<^verbatim>\<open>np.linspace(start, stop, num)\<close>\<close>

definition linspace :: "real \<Rightarrow> real \<Rightarrow> nat \<Rightarrow> real list" where
  "linspace start stop num =
     map (\<lambda>k. start + real k * ((stop - start) / real (num - 1))) [0 ..< num]"

text \<open>
  \<^verbatim>\<open>np.digitize(x, edges)\<close> for increasing edges: the number of edges that are at
  most \<open>x\<close>, so \<open>i\<close> when \<open>edges[i-1] \<le> x < edges[i]\<close>.
\<close>

definition digitize :: "real list \<Rightarrow> real \<Rightarrow> nat" where
  "digitize edges x = length (filter (\<lambda>e. e \<le> x) edges)"

text \<open>
  \<^verbatim>\<open>np.percentile(a, q)\<close>, linear interpolation between the two nearest ranks;
  \<open>None\<close> (nan) on an empty array.
\<close>

definition percentile :: "real list \<Rightarrow> real \<Rightarrow> real option" where
  "percentile a q =
     (if a = [] then None
      else (let srt = sort a; n = length a;
                pos = q / 100 * real (n - 1);
                lo = nat \<lfloor>pos\<rfloor>;
                hi = min (lo + 1) (n - 1);
                frac = pos - real lo
            in Some (srt ! lo + frac * (srt ! hi - srt ! lo))))"

definition planar_radius :: "vec3 \<Rightarrow> real" where
  "planar_radius v = sqrt (x_of v * x_of v + y_of v * y_of v)"

text \<open>\<^verbatim>\<open>radii_verts[bin_indices == i]\<close>\<close>

definition layer_radii :: "nat list \<Rightarrow> real list \<Rightarrow> nat \<Rightarrow> real list" where
  "layer_radii bin_indices radii_verts i =
     map snd (filter (\<lambda>br. fst br = i) (zip bin_indices radii_verts))"

text \<open>The body of the loop: the value appended for bin \<open>i\<close>, given the profile so far.\<close>

definition r_layer :: "nat list \<Rightarrow> real list \<Rightarrow> real option list \<Rightarrow> nat \<Rightarrow> real option" where
  "r_layer bin_indices radii_verts profile_r i =
     (if layer_radii bin_indices radii_verts i \<noteq> [] then
        percentile (layer_radii bin_indices radii_verts i) 90
      else if length profile_r > 0 then last profile_r else Some 0)"

fun profile_loop ::
  "nat list \<Rightarrow> real list \<Rightarrow> nat list \<Rightarrow> real option list \<Rightarrow> real option list" where
  "profile_loop bin_indices radii_verts [] profile_r = profile_r"
| "profile_loop bin_indices radii_verts (i # rest) profile_r =
     profile_loop bin_indices radii_verts rest
       (profile_r @ [r_layer bin_indices radii_verts profile_r i])"

definition height_tol :: real where
  "height_tol = 1 / 10 ^ 6"

definition list_min :: "real list \<Rightarrow> real" where
  "list_min xs = foldl min (hd xs) (tl xs)"

definition list_max :: "real list \<Rightarrow> real" where
  "list_max xs = foldl max (hd xs) (tl xs)"

definition bin_indices_of :: "vec3 list \<Rightarrow> nat \<Rightarrow> nat list" where
  "bin_indices_of verts bins =
     (let z = map z_of verts;
          bin_edges = linspace (list_min z) (list_max z) (bins + 1)
      in map (digitize bin_edges) z)"

text \<open>
  Lines 66-95: the two guards, then the profile, one entry per bin \<open>1, \<dots>, bins\<close>.
  An entry is \<open>Some r\<close>, or \<open>None\<close> for a nan.
\<close>

definition radius_profile :: "vec3 list \<Rightarrow> nat \<Rightarrow> py_error + real option list" where
  "radius_profile verts bins =
     (if length verts = 0 then Inl EmptyMesh
      else (let z = map z_of verts;
                height = list_max z - list_min z
            in if height < height_tol then Inl FlatMesh
               else Inr (profile_loop (bin_indices_of verts bins) (map planar_radius verts)
                           [1 ..< bins + 1] [])))"

text \<open>
  The height range of bin \<open>i\<close> (counted from 0): from edge \<open>i\<close> of
  \<^verbatim>\<open>bin_edges\<close> up to, and not including, edge \<open>i + 1\<close>; and the vertices whose
  height lies in it.
\<close>

definition bin_edge :: "vec3 list \<Rightarrow> nat \<Rightarrow> nat \<Rightarrow> real" where
  "bin_edge verts bins k =
     list_min (map z_of verts)
       + real k * ((list_max (map z_of verts) - list_min (map z_of verts)) / real bins)"

definition bin_vertices :: "vec3 list \<Rightarrow> nat \<Rightarrow> nat \<Rightarrow> vec3 list" where
  "bin_vertices verts bins i =
     filter (\<lambda>v. bin_edge verts bins i \<le> z_of v \<and> z_of v < bin_edge verts bins (i + 1)) verts"

subsection \<open>Stable segments and their ranking (extract\_stable\_cylinder, lines 105-160)\<close>

text \<open>
  \<^verbatim>\<open>np.gradient\<close> of a one-dimensional array with unit spacing: one-sided
  differences at the two ends, central differences inside; fewer than two entries
  raise ValueError.
\<close>

definition np_gradient :: "real list \<Rightarrow> py_error + real list" where
  "np_gradient y =
     (let n = length y in
      if n < 2 then Inl ValueError
      else Inr (map (\<lambda>i. if i = 0 then y ! 1 - y ! 0
                          else if i = n - 1 then y ! (n - 1) - y ! (n - 2)
                          else (y ! (i + 1) - y ! (i - 1)) / 2) [0 ..< n]))"

definition mean :: "real list \<Rightarrow> real" where
  "mean xs = sum_list xs / real (length xs)"

text \<open>Lines 105-113, from the smoothed profile to the stability mask.\<close>

definition stable_mask :: "real \<Rightarrow> real list \<Rightarrow> py_error + bool list" where
  "stable_mask stability_tol profile_smooth =
     (let mean_r = (if mean profile_smooth < 1 / 10 ^ 6 then 1 else mean profile_smooth)
      in case np_gradient profile_smooth of
           Inl e \<Rightarrow> Inl e
         | Inr gradient \<Rightarrow> Inr (map (\<lambda>g. \<bar>g\<bar> / mean_r < stability_tol) gradient))"

text \<open>
  Lines 116-127: the runs of consecutive stable bins. The arguments are the rest of
  the mask, the index \<open>i\<close> of its first entry, \<^verbatim>\<open>current_segment\<close> and
  \<^verbatim>\<open>segments\<close>.
\<close>

fun group_stable :: "bool list \<Rightarrow> nat \<Rightarrow> nat list \<Rightarrow> nat list list \<Rightarrow> nat list list" where
  "group_stable [] i current_segment segments =
     (if current_segment \<noteq> [] then segments @ [current_segment] else segments)"
| "group_stable (is_st # rest) i current_segment segments =
     (if is_st then group_stable rest (Suc i) (current_segment @ [i]) segments
      else if current_segment \<noteq> [] then group_stable rest (Suc i) [] (segments @ [current_segment])
      else group_stable rest (Suc i) current_segment segments)"

definition stable_segments :: "bool list \<Rightarrow> nat list list" where
  "stable_segments is_stable = group_stable is_stable 0 [] []"

text \<open>
  \<^verbatim>\<open>length * (seg_r ** 0.3)\<close>; a negative base gives nan in NumPy, which is
  \<open>None\<close> here, and a comparison with nan is false.
\<close>

definition segment_score :: "real list \<Rightarrow> nat list \<Rightarrow> real option" where
  "segment_score profile_smooth seg =
     (let seg_r = mean (map (\<lambda>i. profile_smooth ! i) seg)
      in if seg_r < 0 then None else Some (real (length seg) * seg_r powr (3 / 10)))"

text \<open>Lines 142-157: the arguments after the segments are \<^verbatim>\<open>best_score\<close> and \<^verbatim>\<open>best_segment\<close>.\<close>

fun pick_best :: "nat \<Rightarrow> real list \<Rightarrow> nat list list \<Rightarrow> real \<Rightarrow> nat list \<Rightarrow> nat list" where
  "pick_best bins profile_smooth [] best_score best_segment = best_segment"
| "pick_best bins profile_smooth (seg # rest) best_score best_segment =
     (if real (length seg) < real bins * (5 / 100) then
        pick_best bins profile_smooth rest best_score best_segment
      else (case segment_score profile_smooth seg of
              None \<Rightarrow> pick_best bins profile_smooth rest best_score best_segment
            | Some score \<Rightarrow>
                if score > best_score then pick_best bins profile_smooth rest score seg
                else pick_best bins profile_smooth rest best_score best_segment))"

definition no_stable_warning :: string where
  "no_stable_warning = ''Warning: No stable cylinder detected! Adjust tolerance or check mesh.''"

text \<open>
  Lines 129-160. \<^verbatim>\<open>int(bins*0.25)\<close> and \<^verbatim>\<open>int(bins*0.75)\<close> are the integer
  quotients \<open>bins div 4\<close> and \<open>3 * bins div 4\<close>. The result is the printed warning, if
  any, and \<^verbatim>\<open>best_segment\<close>; the exit of line 160 is \<open>NoValidBodySegment\<close>.
\<close>

definition select_segment ::
  "nat \<Rightarrow> real list \<Rightarrow> bool list \<Rightarrow> py_error + (string list \<times> nat list)" where
  "select_segment bins profile_smooth is_stable =
     (let segments = stable_segments is_stable;
          chosen = (if segments = [] then
                      ([no_stable_warning], [bins div 4 ..< (3 * bins) div 4])
                    else ([], pick_best bins profile_smooth segments (- 1) []))
      in if length (snd chosen) = 0 then Inl NoValidBodySegment else Inr chosen)"

definition choose_segment ::
  "nat \<Rightarrow> real \<Rightarrow> real list \<Rightarrow> py_error + (string list \<times> nat list)" where
  "choose_segment bins stability_tol profile_smooth =
     (case stable_mask stability_tol profile_smooth of
        Inl e \<Rightarrow> Inl e
      | Inr is_stable \<Rightarrow> select_segment bins profile_smooth is_stable)"

section \<open>SeamPathFinder: scripts/seam\_extract.py\<close>

record mesh =
  vertices :: "vec3 list"
  faces :: "(nat \<times> nat \<times> nat) list"

subsection \<open>Boundary vertices and their two groups (extract\_seam, lines 12-32)\<close>

text \<open>
  \<^verbatim>\<open>mesh.edges\<close> lists the three directed edges of every face, in face order;
  \<^verbatim>\<open>mesh.edges_sorted\<close> has the two ends of every edge in increasing order;
  \<^verbatim>\<open>group_rows(edges, require_count=1)\<close> keeps the edges whose sorted form occurs
  once, and \<^verbatim>\<open>np.unique\<close> gives their ends, sorted and without repetition.
\<close>

definition face_edges :: "nat \<times> nat \<times> nat \<Rightarrow> (nat \<times> nat) list" where
  "face_edges f = (case f of (a, b, c) \<Rightarrow> [(a, b), (b, c), (c, a)])"

definition mesh_edges :: "mesh \<Rightarrow> (nat \<times> nat) list" where
  "mesh_edges m = concat (map face_edges (faces m))"

definition sort_edge :: "nat \<times> nat \<Rightarrow> nat \<times> nat" where
  "sort_edge e = (min (fst e) (snd e), max (fst e) (snd e))"

definition edges_sorted :: "mesh \<Rightarrow> (nat \<times> nat) list" where
  "edges_sorted m = map sort_edge (mesh_edges m)"

definition unique_edges :: "mesh \<Rightarrow> (nat \<times> nat) list" where
  "unique_edges m =
     filter (\<lambda>e. count_list (edges_sorted m) (sort_edge e) = 1) (mesh_edges m)"

definition boundary_indices :: "mesh \<Rightarrow> nat list" where
  "boundary_indices m = sort (remdups (concat (map (\<lambda>e. [fst e, snd e]) (unique_edges m))))"

definition z_values :: "mesh \<Rightarrow> real list" where
  "z_values m = map (\<lambda>i. z_of (vertices m ! i)) (boundary_indices m)"

definition z_mean :: "mesh \<Rightarrow> real" where
  "z_mean m = mean (z_values m)"

definition top_indices :: "mesh \<Rightarrow> nat list" where
  "top_indices m = filter (\<lambda>i. z_of (vertices m ! i) > z_mean m) (boundary_indices m)"

definition bottom_indices :: "mesh \<Rightarrow> nat list" where
  "bottom_indices m = filter (\<lambda>i. z_of (vertices m ! i) < z_mean m) (boundary_indices m)"

subsection \<open>Start and end vertex (extract\_seam, lines 37-42)\<close>

text \<open>
  \<^verbatim>\<open>np.argmin\<close>: the first position of the least entry. The arguments of the loop
  are the rest of the array, the position of its first entry, and the best position and
  value so far.
\<close>

fun argmin_from :: "real list \<Rightarrow> nat \<Rightarrow> nat \<Rightarrow> real \<Rightarrow> nat" where
  "argmin_from [] i best_i best_v = best_i"
| "argmin_from (x # xs) i best_i best_v =
     (if x < best_v then argmin_from xs (Suc i) i x else argmin_from xs (Suc i) best_i best_v)"

definition argmin :: "real list \<Rightarrow> nat" where
  "argmin xs = (case xs of [] \<Rightarrow> 0 | x # rest \<Rightarrow> argmin_from rest 1 0 x)"

definition sub3 :: "vec3 \<Rightarrow> vec3 \<Rightarrow> vec3" where
  "sub3 a b = (x_of a - x_of b, y_of a - y_of b, z_of a - z_of b)"

definition start_idx :: "mesh \<Rightarrow> nat" where
  "start_idx m = top_indices m ! argmin (map (\<lambda>i. x_of (vertices m ! i)) (top_indices m))"

definition end_idx :: "mesh \<Rightarrow> nat" where
  "end_idx m =
     (let start_pos = vertices m ! start_idx m;
          dists = map (\<lambda>i. norm3 (sub3 (vertices m ! i) start_pos)) (bottom_indices m)
      in bottom_indices m ! argmin dists)"

subsection \<open>Shortest path in the vertex-adjacency graph (extract\_seam, lines 48-53)\<close>

text \<open>
  \<^verbatim>\<open>mesh.vertex_adjacency_graph\<close> joins two vertices when some face has an edge
  between them. A walk is a non-empty vertex list whose consecutive vertices are
  adjacent.
\<close>

definition adjacent :: "mesh \<Rightarrow> nat \<Rightarrow> nat \<Rightarrow> bool" where
  "adjacent m u v = ((u, v) \<in> set (mesh_edges m) \<or> (v, u) \<in> set (mesh_edges m))"

definition neighbors :: "mesh \<Rightarrow> nat \<Rightarrow> nat list" where
  "neighbors m v =
     remdups (concat (map (\<lambda>e. (if fst e = v then [snd e] else []) @ (if snd e = v then [fst e] else []))
                          (mesh_edges m)))"

definition nodes :: "mesh \<Rightarrow> nat list" where
  "nodes m = remdups (concat (map (\<lambda>e. [fst e, snd e]) (mesh_edges m)))"

fun is_walk :: "mesh \<Rightarrow> nat list \<Rightarrow> bool" where
  "is_walk m [] = False"
| "is_walk m [v] = True"
| "is_walk m (u # v # rest) = (adjacent m u v \<and> is_walk m (v # rest))"

text \<open>
  \<^verbatim>\<open>nx.shortest_path(graph, source, target)\<close> is NetworkX code: it returns a path
  with the fewest edges from the source to the target and raises NetworkXNoPath when
  there is none; which of several shortest paths it returns is not fixed. The model is
  a breadth-first search: \<open>ball m s n\<close> lists the vertices at most \<open>n\<close> edges away
  from \<open>s\<close>, the distance of the target is the first \<open>n\<close> whose ball holds it (no
  vertex of the graph is further away than the number of nodes), and the path is traced
  back from the target through the first neighbour that is one step closer.
\<close>

fun ball :: "mesh \<Rightarrow> nat \<Rightarrow> nat \<Rightarrow> nat list" where
  "ball m s 0 = [s]"
| "ball m s (Suc n) = remdups (ball m s n @ concat (map (neighbors m) (ball m s n)))"

definition bfs_distance :: "mesh \<Rightarrow> nat \<Rightarrow> nat \<Rightarrow> nat option" where
  "bfs_distance m s t = find (\<lambda>n. t \<in> set (ball m s n)) [0 ..< Suc (length (nodes m))]"

fun trace_back :: "mesh \<Rightarrow> nat \<Rightarrow> nat \<Rightarrow> nat \<Rightarrow> nat list" where
  "trace_back m s 0 t = [t]"
| "trace_back m s (Suc n) t =
     (case find (\<lambda>u. u \<in> set (ball m s n)) (neighbors m t) of
        None \<Rightarrow> []
      | Some u \<Rightarrow> trace_back m s n u @ [t])"

definition shortest_path :: "mesh \<Rightarrow> nat \<Rightarrow> nat \<Rightarrow> py_error + nat list" where
  "shortest_path m s t =
     (case bfs_distance m s t of
        None \<Rightarrow> Inl NetworkXNoPath
      | Some n \<Rightarrow> Inr (trace_back m s n t))"

subsection \<open>The whole of extract\_seam\<close>

text \<open>
  A face that names a vertex the mesh does not have makes the vertex lookups raise
  IndexError. The three reported failures (watertight mesh, groups not separable, no
  path) end the function without output; they are the \<open>Inl\<close> results. The output is
  the seam: each vertex index of the path with its coordinates.
\<close>

definition valid_faces :: "mesh \<Rightarrow> bool" where
  "valid_faces m =
     list_all (\<lambda>f. case f of (a, b, c) \<Rightarrow>
                  a < length (vertices m) \<and> b < length (vertices m) \<and> c < length (vertices m))
              (faces m)"

definition extract_seam :: "mesh \<Rightarrow> py_error + (nat \<times> vec3) list" where
  "extract_seam m =
     (if \<not> valid_faces m then Inl IndexError
      else if length (boundary_indices m) = 0 then Inl Watertight
      else if length (top_indices m) = 0 \<or> length (bottom_indices m) = 0 then Inl NotSeparable
      else (case shortest_path m (start_idx m) (end_idx m) of
              Inl e \<Rightarrow> Inl e
            | Inr path \<Rightarrow> Inr (map (\<lambda>idx. (idx, vertices m ! idx)) path)))"

subsection \<open>An example mesh\<close>

text \<open>
  A flat strip of four triangles, three rows of two vertices at the heights 2, 1 and 0.
\<close>

definition strip_mesh :: mesh where
  "strip_mesh = \<lparr>vertices = [(0, 0, 2), (1, 0, 2), (0, 0, 1), (1, 0, 1), (0, 0, 0), (1, 0, 0)],
                 faces = [(0, 2, 3), (0, 3, 1), (2, 4, 5), (2, 5, 3)]\<rparr>"

section \<open>Theorems: TextureRemapper\<close>

lemma clamp_denom_lower: "denom_eps \<le> \<bar>clamp_denom d\<bar>"
  by (simp add: clamp_denom_def denom_eps_def)

lemma clamp_denom_nonzero: "clamp_denom d \<noteq> 0"
proof -
  have "0 < denom_eps" by (simp add: denom_eps_def)
  with clamp_denom_lower [of d] show ?thesis by auto
qed

lemma match_face_counts_rows:
  assumes "len_faces old_faces \<noteq> len_faces new_faces"
  shows "fst (match_face_counts old_faces new_faces)
           = [mismatch_warning (len_faces old_faces) (len_faces new_faces)]
       \<and> rows_of (fst (snd (match_face_counts old_faces new_faces)))
           = take (min (len_faces old_faces) (len_faces new_faces)) (rows_of old_faces)
       \<and> rows_of (snd (snd (match_face_counts old_faces new_faces)))
           = take (min (len_faces old_faces) (len_faces new_faces)) (rows_of new_faces)"
  using assms
  by (cases old_faces; cases new_faces)
     (simp_all add: match_face_counts_def Let_def slice_faces_def rows_of_def len_faces_def)

lemma no_footprint_face_map: "face_map_of (\<lambda>t p. False) w h tris p = 0"
proof -
  have "draw_faces (\<lambda>t p. False) w h tris i img p = img p" for i img
    by (induction tris arbitrary: i img) (simp_all add: draw_polygon_def covers_def)
  then show ?thesis by (simp add: face_map_of_def)
qed

text \<open>
  With faces left in both arrays the step is followed by the rest of \<^verbatim>\<open>main\<close>:
  three old faces against two new ones print the warning and go on with two of each.
\<close>

lemma mismatch_with_rows_left_example:
  "fst (remap_main (\<lambda>t p. False) 4 4 [(0, 0), (1, 0), (0, 1)]
          (np_array_faces [(0, 1, 2), (1, 2, 0), (2, 0, 1)])
          [(0, 0), (1, 0), (0, 1)] (np_array_faces [(0, 1, 2), (1, 2, 0)]))
     = [mismatch_warning 3 2]
   \<and> (\<exists>r. snd (remap_main (\<lambda>t p. False) 4 4 [(0, 0), (1, 0), (0, 1)]
          (np_array_faces [(0, 1, 2), (1, 2, 0), (2, 0, 1)])
          [(0, 0), (1, 0), (0, 1)] (np_array_faces [(0, 1, 2), (1, 2, 0)])) = Inr r)"
  by (simp add: remap_main_def match_face_counts_def np_array_faces_def len_faces_def
      rows_of_def slice_faces_def Let_def tri_uvs_of_def gather_tri_def lookup_tri_def
      np_get_def no_footprint_face_map numeral_2_eq_2 numeral_3_eq_3)

text \<open>
  C3 fails when the shorter of the two face arrays is the empty one. The step prints
  the warning and cuts both arrays to length 0, and then \<^verbatim>\<open>main\<close> stops with an
  IndexError: at line 78 when the new file has no UV faces (its face array is the
  float64 array of \<^verbatim>\<open>np.array([])\<close>), at line 143 when the old file has none.
\<close>

theorem empty_face_array_raises:
  "remap_main footprint 4 4 [(0, 0), (1, 0), (0, 1)] (np_array_faces [(0, 1, 2), (1, 2, 0)])
       [(0, 0), (1, 0), (0, 1)] (np_array_faces [])
     = ([mismatch_warning 2 0], Inl IndexError)
   \<and> remap_main footprint 4 4 [(0, 0), (1, 0), (0, 1)] (np_array_faces [])
       [(0, 0), (1, 0), (0, 1)] (np_array_faces [(0, 1, 2), (1, 2, 0)])
     = ([mismatch_warning 0 2], Inl IndexError)"
  by (simp add: remap_main_def match_face_counts_def np_array_faces_def len_faces_def
      rows_of_def slice_faces_def Let_def tri_uvs_of_def numeral_2_eq_2)

text \<open>
  C8. Whatever the triangle (a zero-area one included), the divisor of the two
  barycentric quotients is the clamped denominator: its magnitude is at least 1e-8, it
  is not zero, and the weights are always produced, as the two quotients by that
  divisor and their complement to 1.
\<close>

theorem barycentric_denominator_clamped:
  "denom_eps \<le> \<bar>bary_denom A B C\<bar> \<and> bary_denom A B C \<noteq> 0
   \<and> 0 < denom_eps
   \<and> barycentric A B C P =
       Some (1 - (dot2 (sub2 C A) (sub2 C A) * dot2 (sub2 P A) (sub2 B A)
                   - dot2 (sub2 B A) (sub2 C A) * dot2 (sub2 P A) (sub2 C A)) / bary_denom A B C
               - (dot2 (sub2 B A) (sub2 B A) * dot2 (sub2 P A) (sub2 C A)
                   - dot2 (sub2 B A) (sub2 C A) * dot2 (sub2 P A) (sub2 B A)) / bary_denom A B C,
             (dot2 (sub2 C A) (sub2 C A) * dot2 (sub2 P A) (sub2 B A)
                - dot2 (sub2 B A) (sub2 C A) * dot2 (sub2 P A) (sub2 C A)) / bary_denom A B C,
             (dot2 (sub2 B A) (sub2 B A) * dot2 (sub2 P A) (sub2 C A)
                - dot2 (sub2 B A) (sub2 C A) * dot2 (sub2 P A) (sub2 B A)) / bary_denom A B C)"
proof -
  have "denom_eps \<le> \<bar>bary_denom A B C\<bar>"
    by (simp add: bary_denom_def Let_def clamp_denom_lower)
  moreover have "bary_denom A B C \<noteq> 0"
    by (simp add: bary_denom_def Let_def clamp_denom_nonzero)
  moreover have "0 < denom_eps"
    by (simp add: denom_eps_def)
  moreover have "barycentric A B C P =
       Some (1 - (dot2 (sub2 C A) (sub2 C A) * dot2 (sub2 P A) (sub2 B A)
                   - dot2 (sub2 B A) (sub2 C A) * dot2 (sub2 P A) (sub2 C A)) / bary_denom A B C
               - (dot2 (sub2 B A) (sub2 B A) * dot2 (sub2 P A) (sub2 C A)
                   - dot2 (sub2 B A) (sub2 C A) * dot2 (sub2 P A) (sub2 B A)) / bary_denom A B C,
             (dot2 (sub2 C A) (sub2 C A) * dot2 (sub2 P A) (sub2 B A)
                - dot2 (sub2 B A) (sub2 C A) * dot2 (sub2 P A) (sub2 C A)) / bary_denom A B C,
             (dot2 (sub2 B A) (sub2 B A) * dot2 (sub2 P A) (sub2 C A)
                - dot2 (sub2 B A) (sub2 C A) * dot2 (sub2 P A) (sub2 B A)) / bary_denom A B C)"
    by (simp add: barycentric_def bary_denom_def Let_def fdiv_def clamp_denom_nonzero)
  ultimately show ?thesis by blast
qed

lemma bary_num_v:
  fixes a1 a2 b1 b2 s t :: real
  shows "(b1 * b1 + b2 * b2) * ((s * a1 + t * b1) * a1 + (s * a2 + t * b2) * a2)
         - (a1 * b1 + a2 * b2) * ((s * a1 + t * b1) * b1 + (s * a2 + t * b2) * b2)
       = s * ((a1 * a1 + a2 * a2) * (b1 * b1 + b2 * b2) - (a1 * b1 + a2 * b2) * (a1 * b1 + a2 * b2))"
  by (simp add: algebra_simps)

lemma bary_num_w:
  fixes a1 a2 b1 b2 s t :: real
  shows "(a1 * a1 + a2 * a2) * ((s * a1 + t * b1) * b1 + (s * a2 + t * b2) * b2)
         - (a1 * b1 + a2 * b2) * ((s * a1 + t * b1) * a1 + (s * a2 + t * b2) * a2)
       = t * ((a1 * a1 + a2 * a2) * (b1 * b1 + b2 * b2) - (a1 * b1 + a2 * b2) * (a1 * b1 + a2 * b2))"
  by (simp add: algebra_simps)

lemma bary_det_square:
  fixes a1 a2 b1 b2 :: real
  shows "(a1 * a1 + a2 * a2) * (b1 * b1 + b2 * b2) - (a1 * b1 + a2 * b2) * (a1 * b1 + a2 * b2)
       = (a1 * b2 - a2 * b1)\<^sup>2"
  by (simp add: algebra_simps power2_eq_square)

lemma clamp_ratio:
  assumes "0 \<le> D"
  shows "0 \<le> D / clamp_denom D \<and> D / clamp_denom D \<le> 1"
proof (cases "\<bar>D\<bar> < denom_eps")
  case True
  have "0 < denom_eps" by (simp add: denom_eps_def)
  with True assms show ?thesis by (simp add: clamp_denom_def)
next
  case False
  have "0 < denom_eps" by (simp add: denom_eps_def)
  with False assms have "D > 0" by auto
  with False show ?thesis by (simp add: clamp_denom_def)
qed

lemma barycentric_inside:
  fixes A B C P :: vec2
  assumes s: "0 \<le> s" and t: "0 \<le> t" and st: "s + t \<le> 1"
    and P: "P = (fst A + s * (fst B - fst A) + t * (fst C - fst A),
                 snd A + s * (snd B - snd A) + t * (snd C - snd A))"
  shows "\<exists>r. 0 \<le> r \<and> r \<le> 1 \<and> barycentric A B C P = Some (1 - s * r - t * r, s * r, t * r)"
proof -
  define a1 a2 b1 b2 where "a1 = fst B - fst A" and "a2 = snd B - snd A"
    and "b1 = fst C - fst A" and "b2 = snd C - snd A"
  define D where "D = (a1 * a1 + a2 * a2) * (b1 * b1 + b2 * b2) - (a1 * b1 + a2 * b2) * (a1 * b1 + a2 * b2)"
  have D0: "0 \<le> D" unfolding D_def bary_det_square by simp
  have nz: "clamp_denom D \<noteq> 0" by (rule clamp_denom_nonzero)
  have v2: "sub2 P A = (s * a1 + t * b1, s * a2 + t * b2)"
    by (simp add: P sub2_def a1_def a2_def b1_def b2_def)
  have v0: "sub2 B A = (a1, a2)" and v1: "sub2 C A = (b1, b2)"
    by (simp_all add: sub2_def a1_def a2_def b1_def b2_def)
  have "barycentric A B C P = Some (1 - s * D / clamp_denom D - t * D / clamp_denom D,
          s * D / clamp_denom D, t * D / clamp_denom D)"
    unfolding barycentric_def v0 v1 v2 Let_def dot2_def fst_conv snd_conv
    using nz unfolding bary_num_v bary_num_w
    by (simp add: fdiv_def D_def)
  then have "barycentric A B C P = Some (1 - s * (D / clamp_denom D) - t * (D / clamp_denom D),
          s * (D / clamp_denom D), t * (D / clamp_denom D))" by simp
  with clamp_ratio [OF D0] show ?thesis by blast
qed

lemma barycentric_sum_and_bounds:
  fixes A B C P :: vec2
  shows "\<exists>u v w. barycentric A B C P = Some (u, v, w) \<and> u + v + w = 1
      \<and> (0 \<le> s \<and> 0 \<le> t \<and> s + t \<le> 1
           \<and> P = (fst A + s * (fst B - fst A) + t * (fst C - fst A),
                  snd A + s * (snd B - snd A) + t * (snd C - snd A))
          \<longrightarrow> 0 \<le> u \<and> u \<le> 1 \<and> 0 \<le> v \<and> v \<le> 1 \<and> 0 \<le> w \<and> w \<le> 1)"
proof -
  obtain v w where bc: "barycentric A B C P = Some (1 - v - w, v, w)"
    by (auto simp: barycentric_def Let_def fdiv_def clamp_denom_nonzero)
  have sum: "(1 - v - w) + v + w = 1" by simp
  have "0 \<le> 1 - v - w \<and> 1 - v - w \<le> 1 \<and> 0 \<le> v \<and> v \<le> 1 \<and> 0 \<le> w \<and> w \<le> 1"
    if h: "0 \<le> s" "0 \<le> t" "s + t \<le> 1"
      "P = (fst A + s * (fst B - fst A) + t * (fst C - fst A),
            snd A + s * (snd B - snd A) + t * (snd C - snd A))"
  proof -
    from barycentric_inside [OF h] obtain r where r: "0 \<le> r" "r \<le> 1"
      and eq: "barycentric A B C P = Some (1 - s * r - t * r, s * r, t * r)" by blast
    from eq bc have v: "v = s * r" and w: "w = t * r" by simp_all
    have sr: "0 \<le> s * r" "s * r \<le> s" using h(1) r by (simp_all add: mult_left_le)
    have tr: "0 \<le> t * r" "t * r \<le> t" using h(2) r by (simp_all add: mult_left_le)
    from sr tr h show ?thesis unfolding v w by linarith
  qed
  with bc sum show ?thesis by blast
qed

lemma draw_faces_none:
  assumes "\<forall>k<length tris. \<not> covers footprint w h (tris ! k) p"
  shows "draw_faces footprint w h tris i img p = img p"
  using assms
proof (induction tris arbitrary: i img)
  case Nil
  then show ?case by simp
next
  case (Cons t ts)
  from Cons.prems have hd: "\<not> covers footprint w h t p" by force
  from Cons.prems have tl: "\<forall>k<length ts. \<not> covers footprint w h (ts ! k) p" by force
  show ?case using Cons.IH [OF tl] hd by (simp add: draw_polygon_def)
qed

lemma draw_faces_last:
  assumes "k < length tris" and "covers footprint w h (tris ! k) p"
    and "\<forall>j<length tris. covers footprint w h (tris ! j) p \<longrightarrow> j \<le> k"
  shows "draw_faces footprint w h tris i img p = i + k + 1"
  using assms
proof (induction tris arbitrary: i img k)
  case Nil
  then show ?case by simp
next
  case (Cons t ts)
  show ?case
  proof (cases k)
    case 0
    have "\<forall>j<length ts. \<not> covers footprint w h (ts ! j) p"
    proof (intro allI impI)
      fix j assume "j < length ts"
      with Cons.prems(3) 0 have "covers footprint w h ((t # ts) ! Suc j) p \<longrightarrow> Suc j \<le> 0" by auto
      then show "\<not> covers footprint w h (ts ! j) p" by simp
    qed
    from draw_faces_none [OF this] Cons.prems 0 show ?thesis
      by (simp add: draw_polygon_def)
  next
    case (Suc k')
    have a: "k' < length ts" using Cons.prems(1) Suc by simp
    have b: "covers footprint w h (ts ! k') p" using Cons.prems(2) Suc by simp
    have c: "\<forall>j<length ts. covers footprint w h (ts ! j) p \<longrightarrow> j \<le> k'"
    proof (intro allI impI)
      fix j assume "j < length ts" "covers footprint w h (ts ! j) p"
      with Cons.prems(3) have "Suc j \<le> k" by force
      with Suc show "j \<le> k'" by simp
    qed
    from Cons.IH [OF a b c] Suc show ?thesis by simp
  qed
qed

lemma covering_greatest:
  fixes Q :: "nat \<Rightarrow> bool"
  assumes "\<exists>k<n. Q k"
  shows "\<exists>k<n. Q k \<and> (\<forall>j<n. Q j \<longrightarrow> j \<le> k)"
proof -
  from assms obtain k0 where k0: "k0 < n" "Q k0" by blast
  define m where "m = Max {k. k < n \<and> Q k}"
  have fin: "finite {k. k < n \<and> Q k}" by simp
  have ne: "{k. k < n \<and> Q k} \<noteq> {}" using k0 by blast
  have "m \<in> {k. k < n \<and> Q k}" unfolding m_def using Max_in [OF fin ne] .
  moreover have "\<forall>j<n. Q j \<longrightarrow> j \<le> m" unfolding m_def using Max_ge [OF fin] by blast
  ultimately show ?thesis by blast
qed

lemma gather_tris_length:
  "gather_tris w h uvs fs = Inr ts \<Longrightarrow> length ts = length fs"
  by (induction fs arbitrary: ts) (auto split: sum.splits)

lemma np_get_nat: "k < length xs \<Longrightarrow> np_get xs (int (Suc k) - 1) = Inr (xs ! k)"
  by (simp add: np_get_def Let_def)

text \<open>
  C10. Every pixel of the ownership map holds 0, and then no face covers it, or
  \<open>k + 1\<close> for a face \<open>k\<close> that covers it; among the faces covering the pixel \<open>k\<close> is
  the one with the highest index (the last drawn), and the pixel is resampled with the
  new-UV and the old-UV triangle of that same face \<open>k\<close>.
\<close>

theorem ownership_map_last_drawn:
  assumes g: "gather_tris w h new_uvs new_faces = Inr tri_uvs"
    and len: "length old_faces = length new_faces"
  shows "(face_map_of footprint w h tri_uvs p = 0
            \<and> (\<forall>k<length tri_uvs. \<not> covers footprint w h (tri_uvs ! k) p))
       \<or> (\<exists>k<length new_faces.
             face_map_of footprint w h tri_uvs p = k + 1
           \<and> covers footprint w h (tri_uvs ! k) p
           \<and> (\<forall>j<length tri_uvs. covers footprint w h (tri_uvs ! j) p \<longrightarrow> j \<le> k)
           \<and> pixel_target w h old_uvs old_faces new_uvs new_faces
                 (face_map_of footprint w h tri_uvs) p
               = resample w h old_uvs new_uvs (old_faces ! k) (new_faces ! k) p)"
proof (cases "\<exists>k<length tri_uvs. covers footprint w h (tri_uvs ! k) p")
  case False
  then have "\<forall>k<length tri_uvs. \<not> covers footprint w h (tri_uvs ! k) p" by blast
  from draw_faces_none [OF this] False show ?thesis by (simp add: face_map_of_def)
next
  case True
  from covering_greatest [OF True] obtain k where k: "k < length tri_uvs"
    "covers footprint w h (tri_uvs ! k) p"
    "\<forall>j<length tri_uvs. covers footprint w h (tri_uvs ! j) p \<longrightarrow> j \<le> k" by blast
  have fm: "face_map_of footprint w h tri_uvs p = k + 1"
    unfolding face_map_of_def using draw_faces_last [OF k] by simp
  have kn: "k < length new_faces" using k(1) gather_tris_length [OF g] by simp
  have ko: "k < length old_faces" using kn len by simp
  have "pixel_target w h old_uvs old_faces new_uvs new_faces (face_map_of footprint w h tri_uvs) p
      = resample w h old_uvs new_uvs (old_faces ! k) (new_faces ! k) p"
    using np_get_nat [OF kn] np_get_nat [OF ko] by (simp add: pixel_target_def fm Let_def)
  with fm k kn show ?thesis by blast
qed

theorem ownership_map_last_drawn_witness:
  "gather_tris 2 1 [(0, 0), (1, 0), (0, 1)] [(0, 1, 2), (1, 2, 0)]
     = Inr [((0, 0), (2, 0), (0, 1)), ((2, 0), (0, 1), (0, 0))]
   \<and> length [(0::int, 1::int, 2::int), (2, 1, 0)] = length [(0::int, 1::int, 2::int), (1, 2, 0)]
   \<and> face_map_of (\<lambda>t p. fst p = 0) 2 1
        [((0, 0), (2, 0), (0, 1)), ((2, 0), (0, 1), (0, 0))] (0, 0) = 2
   \<and> face_map_of (\<lambda>t p. fst p = 0) 2 1
        [((0, 0), (2, 0), (0, 1)), ((2, 0), (0, 1), (0, 0))] (1, 0) = 0
   \<and> pixel_target 2 1 [(0, 0), (1, 0), (0, 1)] [(0, 1, 2), (2, 1, 0)]
        [(0, 0), (1, 0), (0, 1)] [(0, 1, 2), (1, 2, 0)]
        (face_map_of (\<lambda>t p. fst p = 0) 2 1
           [((0, 0), (2, 0), (0, 1)), ((2, 0), (0, 1), (0, 0))]) (0, 0)
      = resample 2 1 [(0, 0), (1, 0), (0, 1)] [(0, 0), (1, 0), (0, 1)] (2, 1, 0) (1, 2, 0) (0, 0)"
  using ownership_map_last_drawn
    [of 2 1 "[(0, 0), (1, 0), (0, 1)]" "[(0, 1, 2), (1, 2, 0)]"
        "[((0, 0), (2, 0), (0, 1)), ((2, 0), (0, 1), (0, 0))]"
        "[(0, 1, 2), (2, 1, 0)]" "\<lambda>t p. fst p = 0" "(0, 0)" "[(0, 0), (1, 0), (0, 1)]"]
  by (simp add: gather_tri_def lookup_tri_def np_get_def scale2_def face_map_of_def draw_polygon_def
      covers_def pixel_target_def Let_def)

lemma gather_tris_nth:
  "gather_tris w h uvs fs = Inr ts \<Longrightarrow> k < length fs \<Longrightarrow>
   gather_tri w h uvs (fs ! k) = Inr (ts ! k)"
proof (induction fs arbitrary: ts k)
  case Nil
  then show ?case by simp
next
  case (Cons f fs)
  from Cons.prems(1) obtain t ts' where t: "gather_tri w h uvs f = Inr t"
    and ts': "gather_tris w h uvs fs = Inr ts'" and ts: "ts = t # ts'"
    by (auto split: sum.splits)
  show ?case
  proof (cases k)
    case 0
    with t ts show ?thesis by simp
  next
    case (Suc k')
    with Cons.prems(2) have "k' < length fs" by simp
    from Cons.IH [OF ts' this] Suc ts show ?thesis by simp
  qed
qed

lemma covered_pixel_owner:
  assumes "face_map_of footprint w h tri_uvs p \<noteq> 0"
  shows "\<exists>k<length tri_uvs. face_map_of footprint w h tri_uvs p = k + 1
           \<and> covers footprint w h (tri_uvs ! k) p"
proof -
  have "\<exists>k<length tri_uvs. covers footprint w h (tri_uvs ! k) p"
  proof (rule ccontr)
    assume "\<not> ?thesis"
    then have "\<forall>k<length tri_uvs. \<not> covers footprint w h (tri_uvs ! k) p" by blast
    from draw_faces_none [OF this] assms show False by (simp add: face_map_of_def)
  qed
  from covering_greatest [OF this] obtain k where k: "k < length tri_uvs"
    "covers footprint w h (tri_uvs ! k) p"
    "\<forall>j<length tri_uvs. covers footprint w h (tri_uvs ! j) p \<longrightarrow> j \<le> k" by blast
  have "face_map_of footprint w h tri_uvs p = k + 1"
    unfolding face_map_of_def using draw_faces_last [OF k] by simp
  with k(1,2) show ?thesis by blast
qed

lemma raw_denom_unclamped: "denom_eps \<le> raw_denom A B C \<Longrightarrow> bary_denom A B C = raw_denom A B C"
  unfolding bary_denom_def raw_denom_def Let_def clamp_denom_def by auto

text \<open>
  C7, as amended. For every pixel whose entry in the ownership map is not the
  background, the entry is \<open>k + 1\<close> for a face \<open>k\<close> whose footprint covers the pixel,
  the three weights of the pixel's index in the new-UV triangle of face \<open>k\<close> are
  produced, and they add up to 1. When the denominator of that triangle is at least
  1e-8 and the pixel's index lies in the closed triangle (it is
  \<open>A + s (B - A) + t (C - A)\<close> with \<open>s, t \<ge> 0\<close> and \<open>s + t \<le> 1\<close>), each weight lies
  in \<open>[0, 1]\<close>. Nothing is promised for a pixel that the footprint gives to a triangle
  its index lies outside of.
\<close>

theorem covered_pixel_weights:
  assumes g: "gather_tris w h new_uvs new_faces = Inr tri_uvs"
    and nb: "face_map_of footprint w h tri_uvs p \<noteq> 0"
  shows "\<exists>k A B C u v wt.
           face_map_of footprint w h tri_uvs p = k + 1 \<and> k < length tri_uvs
         \<and> covers footprint w h (tri_uvs ! k) p
         \<and> tri_uvs ! k = (A, B, C)
         \<and> pixel_weights w h new_uvs new_faces (face_map_of footprint w h tri_uvs) p = Inr (u, v, wt)
         \<and> barycentric A B C (real (fst p), real (snd p)) = Some (u, v, wt)
         \<and> u + v + wt = 1
         \<and> (denom_eps \<le> raw_denom A B C \<and> 0 \<le> s \<and> 0 \<le> t \<and> s + t \<le> 1
              \<and> (real (fst p), real (snd p))
                  = (fst A + s * (fst B - fst A) + t * (fst C - fst A),
                     snd A + s * (snd B - snd A) + t * (snd C - snd A))
            \<longrightarrow> 0 \<le> u \<and> u \<le> 1 \<and> 0 \<le> v \<and> v \<le> 1 \<and> 0 \<le> wt \<and> wt \<le> 1)"
proof -
  from covered_pixel_owner [OF nb] obtain k where k: "k < length tri_uvs"
    and fm: "face_map_of footprint w h tri_uvs p = k + 1"
    and cv: "covers footprint w h (tri_uvs ! k) p" by blast
  have kn: "k < length new_faces" using k gather_tris_length [OF g] by simp
  obtain A B C where tri: "tri_uvs ! k = (A, B, C)" by (cases "tri_uvs ! k") auto
  have gt: "gather_tri w h new_uvs (new_faces ! k) = Inr (A, B, C)"
    using gather_tris_nth [OF g kn] tri by simp
  from barycentric_sum_and_bounds [of A B C "(real (fst p), real (snd p))" s t]
  obtain u v wt where bc: "barycentric A B C (real (fst p), real (snd p)) = Some (u, v, wt)"
    and sum: "u + v + wt = 1"
    and bd: "0 \<le> s \<and> 0 \<le> t \<and> s + t \<le> 1
              \<and> (real (fst p), real (snd p))
                  = (fst A + s * (fst B - fst A) + t * (fst C - fst A),
                     snd A + s * (snd B - snd A) + t * (snd C - snd A))
            \<longrightarrow> 0 \<le> u \<and> u \<le> 1 \<and> 0 \<le> v \<and> v \<le> 1 \<and> 0 \<le> wt \<and> wt \<le> 1"
    by blast
  have pw: "pixel_weights w h new_uvs new_faces (face_map_of footprint w h tri_uvs) p = Inr (u, v, wt)"
    using np_get_nat [OF kn] gt bc by (simp add: pixel_weights_def fm)
  from fm k cv tri pw bc sum bd show ?thesis by blast
qed

lemma corner_example_tris:
  "gather_tris 8 8 [(1 / 16, 1 / 16), (9 / 16, 1 / 16), (1 / 16, 9 / 16)] [(0, 1, 2)]
     = Inr [((1 / 2, 1 / 2), (9 / 2, 1 / 2), (1 / 2, 9 / 2))]"
  by (simp add: gather_tri_def lookup_tri_def np_get_def scale2_def)

lemma corner_example_face_map:
  "face_map_of corner_footprint 8 8 [((1 / 2, 1 / 2), (9 / 2, 1 / 2), (1 / 2, 9 / 2))] (0, 0) = 1"
  by (simp add: face_map_of_def draw_polygon_def covers_def corner_footprint_def trunc_cell_def)

lemma inner_example_face_map:
  "face_map_of (\<lambda>t p. p = (2, 2)) 8 8 [((0, 0), (8, 0), (0, 8))] (2, 2) = 1"
  by (simp add: face_map_of_def draw_polygon_def covers_def)

lemma inner_example_tris:
  "gather_tris 8 8 [(0, 0), (1, 0), (0, 1)] [(0, 1, 2)] = Inr [((0, 0), (8, 0), (0, 8))]"
  by (simp add: gather_tri_def lookup_tri_def np_get_def scale2_def)

theorem covered_pixel_weights_witness:
  "gather_tris 8 8 [(0, 0), (1, 0), (0, 1)] [(0, 1, 2)] = Inr [((0, 0), (8, 0), (0, 8))]
   \<and> face_map_of (\<lambda>t p. p = (2, 2)) 8 8 [((0, 0), (8, 0), (0, 8))] (2, 2) \<noteq> 0
   \<and> denom_eps \<le> raw_denom (0, 0) (8, 0) (0, 8)
   \<and> pixel_weights 8 8 [(0, 0), (1, 0), (0, 1)] [(0, 1, 2)]
        (face_map_of (\<lambda>t p. p = (2, 2)) 8 8 [((0, 0), (8, 0), (0, 8))]) (2, 2)
      = Inr (1 / 2, 1 / 4, 1 / 4)"
  using covered_pixel_weights [OF inner_example_tris, of "\<lambda>t p. p = (2, 2)" "(2, 2)" "1 / 4" "1 / 4"]
  by (simp add: inner_example_tris inner_example_face_map pixel_weights_def np_get_def
      gather_tri_def lookup_tri_def scale2_def barycentric_def Let_def fdiv_def clamp_denom_def
      denom_eps_def raw_denom_def sub2_def dot2_def)

text \<open>
  C7 as stated fails for a pixel at a corner: the triangle with the corners
  \<open>(1/2, 1/2)\<close>, \<open>(9/2, 1/2)\<close>, \<open>(1/2, 9/2)\<close> in an 8 by 8 image has the corner pixel
  \<open>(0, 0)\<close> in its footprint, the pixel's index lies outside the triangle, and its
  weights are \<open>5/4\<close>, \<open>-1/8\<close> and \<open>-1/8\<close>.
\<close>

theorem corner_pixel_weights_counterexample:
  "gather_tris 8 8 [(1 / 16, 1 / 16), (9 / 16, 1 / 16), (1 / 16, 9 / 16)] [(0, 1, 2)]
     = Inr [((1 / 2, 1 / 2), (9 / 2, 1 / 2), (1 / 2, 9 / 2))]
   \<and> face_map_of corner_footprint 8 8 [((1 / 2, 1 / 2), (9 / 2, 1 / 2), (1 / 2, 9 / 2))] (0, 0) = 1
   \<and> pixel_weights 8 8 [(1 / 16, 1 / 16), (9 / 16, 1 / 16), (1 / 16, 9 / 16)] [(0, 1, 2)]
        (face_map_of corner_footprint 8 8 [((1 / 2, 1 / 2), (9 / 2, 1 / 2), (1 / 2, 9 / 2))]) (0, 0)
      = Inr (5 / 4, - 1 / 8, - 1 / 8)"
  by (simp add: corner_example_tris corner_example_face_map pixel_weights_def np_get_def
      gather_tri_def lookup_tri_def scale2_def barycentric_def Let_def fdiv_def clamp_denom_def
      denom_eps_def sub2_def dot2_def)

lemma collect_uv_indices_filter:
  "collect_uv_indices ps = Inr uv \<Longrightarrow>
   map Some uv =
     map (\<lambda>p. map_option (\<lambda>k. k - 1) (py_int (split_on CHR ''/'' p ! 1))) (filter carries_uv ps)"
proof (induction ps arbitrary: uv)
  case Nil
  then show ?case by simp
next
  case (Cons p ps)
  show ?case
  proof (cases "carries_uv p")
    case True
    with Cons.prems obtain k r where k: "py_int (split_on CHR ''/'' p ! 1) = Some k"
      and r: "collect_uv_indices ps = Inr r" and uv: "uv = (k - 1) # r"
      by (auto simp: carries_uv_def Let_def split: option.splits sum.splits)
    from Cons.IH [OF r] True k uv show ?thesis by simp
  next
    case False
    with Cons.prems have "collect_uv_indices ps = Inr uv"
      by (auto simp: carries_uv_def Let_def)
    from Cons.IH [OF this] False show ?thesis by simp
  qed
qed

lemma collect_uv_indices_plain:
  "\<forall>p\<in>set ps. \<not> carries_uv p \<Longrightarrow> collect_uv_indices ps = Inr []"
  by (induction ps) (auto simp: carries_uv_def Let_def)

lemma fan_triangles_length: "length (fan_triangles uv) = length uv - 2"
  by (simp add: fan_triangles_def)

lemma fan_triangles_nth:
  "i < length uv - 2 \<Longrightarrow> fan_triangles uv ! i = (uv ! 0, uv ! (i + 1), uv ! (i + 2))"
  by (simp add: fan_triangles_def)

lemma split_ws_example_uv: "tl (split_ws ''f 1/1 2/2 3/3 4/4'') = [''1/1'', ''2/2'', ''3/3'', ''4/4'']"
  by code_simp
lemma parse_face_line_example_uv: "parse_face_line ''f 1/1 2/2 3/3 4/4'' = Inr [(0, 1, 2), (0, 2, 3)]"
  by code_simp
lemma split_ws_example_plain: "tl (split_ws ''f 1 2 3'') = [''1'', ''2'', ''3'']"
  by code_simp
lemma carries_uv_examples: "carries_uv ''1/1'' \<and> carries_uv ''2/2'' \<and> carries_uv ''3/3'' \<and> carries_uv ''4/4''
   \<and> \<not> carries_uv ''1'' \<and> \<not> carries_uv ''2'' \<and> \<not> carries_uv ''3''"
  by code_simp
lemma load_obj_uv_example_plain: "load_obj_uv (\<lambda>s. None) [''v 0 0 0'', ''v 1 0 0'', ''v 0 1 0'', ''f 1 2 3''] = Inr ([], [])"
  by code_simp

text \<open>
  C9. The UV faces of a face line are the fan triples \<open>(uv 0, uv (i+1), uv (i+2))\<close> over
  the UV indices of exactly those vertex entries that carry one: their number is the
  number of such entries minus two (none when there are fewer than three), which is
  \<open>n - 2\<close> when all \<open>n\<close> entries carry a UV index. A line none of whose entries
  carries a UV index parses without error and yields no UV face, so a file can have
  geometry faces and fewer UV faces.
\<close>

theorem face_line_uv_faces:
  "(parse_face_line line = Inr fs \<longrightarrow>
      (\<exists>uv. collect_uv_indices (tl (split_ws line)) = Inr uv
        \<and> map Some uv =
            map (\<lambda>p. map_option (\<lambda>k. k - 1) (py_int (split_on CHR ''/'' p ! 1)))
              (filter carries_uv (tl (split_ws line)))
        \<and> length fs = length (filter carries_uv (tl (split_ws line))) - 2
        \<and> (\<forall>i<length fs. fs ! i = (uv ! 0, uv ! (i + 1), uv ! (i + 2)))
        \<and> ((\<forall>p\<in>set (tl (split_ws line)). carries_uv p)
             \<longrightarrow> length fs = length (tl (split_ws line)) - 2)))
   \<and> ((\<forall>p\<in>set (tl (split_ws line)). \<not> carries_uv p) \<longrightarrow> parse_face_line line = Inr [])"
proof (intro conjI impI)
  assume a: "parse_face_line line = Inr fs"
  then obtain uv where uv: "collect_uv_indices (tl (split_ws line)) = Inr uv"
    and fs: "fs = fan_triangles uv"
    by (auto simp: parse_face_line_def split: sum.splits)
  note m = collect_uv_indices_filter [OF uv]
  have len: "length uv = length (filter carries_uv (tl (split_ws line)))"
    using arg_cong [OF m, of length] by simp
  have l2: "length fs = length (filter carries_uv (tl (split_ws line))) - 2"
    using len fs by (simp add: fan_triangles_length)
  have nth: "\<forall>i<length fs. fs ! i = (uv ! 0, uv ! (i + 1), uv ! (i + 2))"
    using fs by (simp add: fan_triangles_length fan_triangles_nth)
  have all: "(\<forall>p\<in>set (tl (split_ws line)). carries_uv p)
             \<longrightarrow> length fs = length (tl (split_ws line)) - 2"
    using l2 by (simp add: filter_True) 
  from uv m l2 nth all
  show "\<exists>uv. collect_uv_indices (tl (split_ws line)) = Inr uv
        \<and> map Some uv =
            map (\<lambda>p. map_option (\<lambda>k. k - 1) (py_int (split_on CHR ''/'' p ! 1)))
              (filter carries_uv (tl (split_ws line)))
        \<and> length fs = length (filter carries_uv (tl (split_ws line))) - 2
        \<and> (\<forall>i<length fs. fs ! i = (uv ! 0, uv ! (i + 1), uv ! (i + 2)))
        \<and> ((\<forall>p\<in>set (tl (split_ws line)). carries_uv p)
             \<longrightarrow> length fs = length (tl (split_ws line)) - 2)" by blast
next
  assume "\<forall>p\<in>set (tl (split_ws line)). \<not> carries_uv p"
  from collect_uv_indices_plain [OF this] show "parse_face_line line = Inr []"
    by (simp add: parse_face_line_def fan_triangles_def)
qed

theorem face_line_uv_faces_witness:
  "parse_face_line ''f 1/1 2/2 3/3 4/4'' = Inr [(0, 1, 2), (0, 2, 3)]
   \<and> length (tl (split_ws ''f 1/1 2/2 3/3 4/4'')) = 4
   \<and> length (filter carries_uv (tl (split_ws ''f 1/1 2/2 3/3 4/4''))) = 4
   \<and> length (filter carries_uv (tl (split_ws ''f 1 2 3''))) = 0
   \<and> parse_face_line ''f 1 2 3'' = Inr []
   \<and> load_obj_uv (\<lambda>s. None) [''v 0 0 0'', ''v 1 0 0'', ''v 0 1 0'', ''f 1 2 3''] = Inr ([], [])"
  using face_line_uv_faces [of "''f 1/1 2/2 3/3 4/4''" "[(0, 1, 2), (0, 2, 3)]"]
    face_line_uv_faces [of "''f 1 2 3''" "[]"]
    parse_face_line_example_uv load_obj_uv_example_plain
  by (simp add: split_ws_example_uv split_ws_example_plain carries_uv_examples)

section \<open>Theorems: CylinderSegmenter and MeshAligner\<close>

lemma profile_loop_length:
  "length (profile_loop bi rv is acc) = length acc + length is"
  by (induction "is" arbitrary: acc) simp_all

lemma profile_loop_prefix:
  "k < length acc \<Longrightarrow> profile_loop bi rv is acc ! k = acc ! k"
  by (induction "is" arbitrary: acc) (simp_all add: nth_append)

lemma profile_loop_take:
  "take (length acc) (profile_loop bi rv is acc) = acc"
  by (rule nth_equalityI) (simp_all add: profile_loop_length profile_loop_prefix)

lemma profile_loop_nth:
  "k < length is \<Longrightarrow>
   profile_loop bi rv is acc ! (length acc + k)
     = r_layer bi rv (take (length acc + k) (profile_loop bi rv is acc)) (is ! k)"
proof (induction "is" arbitrary: acc k)
  case Nil
  then show ?case by simp
next
  case (Cons i rest)
  let ?acc' = "acc @ [r_layer bi rv acc i]"
  show ?case
  proof (cases k)
    case 0
    have "profile_loop bi rv rest ?acc' ! length acc = ?acc' ! length acc"
      by (rule profile_loop_prefix) simp
    moreover have "take (length acc) (profile_loop bi rv rest ?acc') = acc"
    proof -
      have t: "take (length ?acc') (profile_loop bi rv rest ?acc') = ?acc'"
        by (rule profile_loop_take)
      have "take (length acc) (profile_loop bi rv rest ?acc')
          = take (length acc) (take (length ?acc') (profile_loop bi rv rest ?acc'))"
        by (simp add: min_def)
      also have "\<dots> = take (length acc) ?acc'" by (simp only: t)
      also have "\<dots> = acc" by simp
      finally show ?thesis .
    qed
    ultimately show ?thesis using 0 by simp
  next
    case (Suc k')
    with Cons.prems have k': "k' < length rest" by simp
    from Cons.IH [OF k', of ?acc'] Suc show ?thesis by simp
  qed
qed


lemma percentile_defined: "a \<noteq> [] \<Longrightarrow> \<exists>r. percentile a q = Some r"
  by (simp add: percentile_def Let_def)

lemma profile_from_empty_nth:
  assumes "i < bins"
  shows "profile_loop bi rv [1 ..< bins + 1] [] ! i
       = r_layer bi rv (take i (profile_loop bi rv [1 ..< bins + 1] [])) (i + 1)"
proof -
  have k: "i < length [1 ..< bins + 1]" using assms by simp
  have n: "[1 ..< bins + 1] ! i = i + 1"
    using assms nth_upt [of 1 i "bins + 1"] by simp
  have "profile_loop bi rv [1 ..< bins + 1] [] ! (length ([] :: real option list) + i)
      = r_layer bi rv (take (length ([] :: real option list) + i)
          (profile_loop bi rv [1 ..< bins + 1] [])) ([1 ..< bins + 1] ! i)"
    by (rule profile_loop_nth [OF k])
  then show ?thesis by (simp only: n list.size add_0)
qed

lemma profile_from_empty_defined:
  "i < bins \<Longrightarrow> \<exists>r. profile_loop bi rv [1 ..< bins + 1] [] ! i = Some r"
proof (induction i)
  case 0
  then show ?case
    using profile_from_empty_nth [of 0 bins bi rv] percentile_defined
    by (auto simp: r_layer_def)
next
  case (Suc i)
  let ?prof = "profile_loop bi rv [1 ..< bins + 1] []"
  from Suc.prems have i: "i < bins" by simp
  from Suc.IH [OF i] obtain r where r: "?prof ! i = Some r" by blast
  have len: "length ?prof = bins" by (simp add: profile_loop_length)
  have tk: "take (Suc i) ?prof = take i ?prof @ [?prof ! i]"
    using i len by (simp add: take_Suc_conv_app_nth)
  have "?prof ! Suc i = r_layer bi rv (take (Suc i) ?prof) (Suc i + 1)"
    using profile_from_empty_nth [OF Suc.prems] by simp
  then show ?case using percentile_defined r tk
    by (auto simp: r_layer_def)
qed

lemma radius_profile_by_index:
  assumes "verts \<noteq> []"
    and "height_tol \<le> list_max (map z_of verts) - list_min (map z_of verts)"
  shows "\<exists>prof. radius_profile verts bins = Inr prof \<and> length prof = bins \<and>
     (\<forall>i<bins.
        (\<exists>r. prof ! i = Some r)
      \<and> (layer_radii (bin_indices_of verts bins) (map planar_radius verts) (i + 1) \<noteq> []
            \<longrightarrow> prof ! i =
                 percentile (layer_radii (bin_indices_of verts bins) (map planar_radius verts) (i + 1)) 90)
      \<and> (layer_radii (bin_indices_of verts bins) (map planar_radius verts) (i + 1) = [] \<and> i = 0
            \<longrightarrow> prof ! i = Some 0)
      \<and> (layer_radii (bin_indices_of verts bins) (map planar_radius verts) (i + 1) = [] \<and> 0 < i
            \<longrightarrow> prof ! i = prof ! (i - 1)))"
proof -
  define bi where "bi = bin_indices_of verts bins"
  define rv where "rv = map planar_radius verts"
  define prof where "prof = profile_loop bi rv [1 ..< bins + 1] []"
  have rp: "radius_profile verts bins = Inr prof"
    using assms by (simp add: radius_profile_def Let_def prof_def bi_def rv_def)
  have len: "length prof = bins" by (simp add: prof_def profile_loop_length)
  have ent: "(\<exists>r. prof ! i = Some r)
      \<and> (layer_radii bi rv (i + 1) \<noteq> [] \<longrightarrow> prof ! i = percentile (layer_radii bi rv (i + 1)) 90)
      \<and> (layer_radii bi rv (i + 1) = [] \<and> i = 0 \<longrightarrow> prof ! i = Some 0)
      \<and> (layer_radii bi rv (i + 1) = [] \<and> 0 < i \<longrightarrow> prof ! i = prof ! (i - 1))"
    if i: "i < bins" for i
  proof -
    have nth: "prof ! i = r_layer bi rv (take i prof) (i + 1)"
      unfolding prof_def by (rule profile_from_empty_nth [OF i])
    have d: "\<exists>r. prof ! i = Some r"
      unfolding prof_def by (rule profile_from_empty_defined [OF i])
    have l: "last (take i prof) = prof ! (i - 1)" if "0 < i"
    proof -
      have ne: "take i prof \<noteq> []" using that i len by auto
      have "last (take i prof) = take i prof ! (length (take i prof) - 1)"
        by (rule last_conv_nth [OF ne])
      also have "length (take i prof) = i" using i len by simp
      also have "take i prof ! (i - 1) = prof ! (i - 1)" using that by simp
      finally show ?thesis .
    qed
    have tl: "0 < i \<Longrightarrow> length (take i prof) > 0" using i len by simp
    show ?thesis using nth d l tl by (auto simp: r_layer_def)
  qed
  from rp len ent show ?thesis unfolding bi_def rv_def by blast
qed

lemma bin_indices_example:
  "bin_indices_of [(1, 0, 0), (0, 0, 1), (1, 0, 4)] 4 = [1, 2, 5]"
  by (simp add: bin_indices_of_def Let_def z_of_def list_min_def list_max_def linspace_def
      digitize_def upt_rec [of _ "numeral _"] upt_rec [of _ "Suc _"])

lemma radius_profile_example:
  "radius_profile [(1, 0, 0), (0, 0, 1), (1, 0, 4)] 4 = Inr [Some 1, Some 0, Some 0, Some 0]"
  by (simp add: radius_profile_def bin_indices_example Let_def z_of_def x_of_def y_of_def
      list_min_def list_max_def height_tol_def planar_radius_def r_layer_def layer_radii_def
      percentile_def upt_rec [of _ "numeral _"] upt_rec [of _ "Suc _"])

lemma count_down_closed:
  fixes P :: "nat \<Rightarrow> bool"
  assumes dc: "\<And>k k'. k' \<le> k \<Longrightarrow> P k \<Longrightarrow> P k'"
  shows "\<forall>k<n. P k = (k < length (filter P [0 ..< n]))"
proof (induction n)
  case 0
  show ?case by simp
next
  case (Suc n)
  define c where "c = length (filter P [0 ..< n])"
  have IH: "\<forall>k<n. P k = (k < c)" using Suc.IH by (simp only: c_def)
  have cle: "c \<le> n" unfolding c_def using length_filter_le [of P "[0 ..< n]"] by simp
  have split: "length (filter P [0 ..< Suc n]) = (if P n then Suc c else c)"
    unfolding c_def by simp
  show ?case
  proof (cases "P n")
    case True
    have cn: "c = n"
    proof (rule ccontr)
      assume "c \<noteq> n"
      with cle have lt: "c < n" by simp
      with IH have "P c = (c < c)" by blast
      moreover have "P c" by (rule dc [OF _ True]) (use lt in simp)
      ultimately show False by simp
    qed
    have len: "length (filter P [0 ..< Suc n]) = Suc n" by (simp only: split True cn if_True)
    show ?thesis
    proof (intro allI impI)
      fix k assume k: "k < Suc n"
      then have "k \<le> n" by simp
      then have "P k" by (rule dc [OF _ True])
      with k show "P k = (k < length (filter P [0 ..< Suc n]))" by (simp only: len)
    qed
  next
    case False
    have len: "length (filter P [0 ..< Suc n]) = c" by (simp only: split False if_False)
    show ?thesis
    proof (intro allI impI)
      fix k assume k: "k < Suc n"
      show "P k = (k < length (filter P [0 ..< Suc n]))"
      proof (cases "k = n")
        case True
        with False cle show ?thesis unfolding len by auto
      next
        case kn: False
        with k have "k < n" by simp
        with IH show ?thesis unfolding len by blast
      qed
    qed
  qed
qed

lemma digitize_count:
  "digitize (linspace a b (bins + 1)) z
     = length (filter (\<lambda>k. a + real k * ((b - a) / real bins) \<le> z) [0 ..< bins + 1])"
proof -
  have "filter (\<lambda>e. e \<le> z) (map (\<lambda>k. a + real k * ((b - a) / real bins)) [0 ..< bins + 1])
      = map (\<lambda>k. a + real k * ((b - a) / real bins))
          (filter (\<lambda>k. a + real k * ((b - a) / real bins) \<le> z) [0 ..< bins + 1])"
    by (simp only: filter_map comp_def)
  then show ?thesis
    unfolding digitize_def linspace_def by (simp only: length_map add_diff_cancel_right')
qed

lemma digitize_linspace:
  assumes step: "0 \<le> (b - a) / real bins" and i: "i < bins"
  shows "digitize (linspace a b (bins + 1)) z = i + 1 \<longleftrightarrow>
          a + real i * ((b - a) / real bins) \<le> z \<and> z < a + real (i + 1) * ((b - a) / real bins)"
proof -
  define st where "st = (b - a) / real bins"
  define P where "P = (\<lambda>k. a + real k * st \<le> z)"
  have st0: "0 \<le> st" using step by (simp only: st_def)
  have dc: "P k'" if "k' \<le> k" "P k" for k k'
  proof -
    from that(1) have "real k' \<le> real k" by simp
    then have "real k' * st \<le> real k * st" using st0 by (rule mult_right_mono)
    with that(2) show ?thesis unfolding P_def by linarith
  qed
  have d: "digitize (linspace a b (bins + 1)) z = length (filter P [0 ..< bins + 1])"
    unfolding P_def st_def by (rule digitize_count)
  define c where "c = length (filter P [0 ..< bins + 1])"
  have cc: "\<forall>k<bins + 1. P k = (k < c)"
    unfolding c_def by (rule count_down_closed) (rule dc)
  have "i < bins + 1" using i by simp
  with cc have pi: "P i = (i < c)" by blast
  have "i + 1 < bins + 1" using i by simp
  with cc have pi1: "P (i + 1) = (i + 1 < c)" by blast
  have "(c = i + 1) = (i < c \<and> \<not> i + 1 < c)" by arith
  then have "(c = i + 1) = (P i \<and> \<not> P (i + 1))" by (simp only: pi pi1)
  then have "length (filter P [0 ..< bins + 1]) = i + 1 \<longleftrightarrow> P i \<and> \<not> P (i + 1)"
    by (simp only: c_def)
  then have "digitize (linspace a b (bins + 1)) z = i + 1 \<longleftrightarrow> P i \<and> \<not> P (i + 1)"
    by (simp only: d)
  then show ?thesis unfolding P_def st_def by (simp only: not_le)
qed

lemma layer_by_key:
  "map snd (filter (\<lambda>br. fst br = j) (zip (map g vs) (map r vs)))
     = map r (filter (\<lambda>v. g v = j) vs)"
  by (induction vs) simp_all

lemma layer_is_bin_vertices:
  assumes "0 \<le> list_max (map z_of verts) - list_min (map z_of verts)" and "i < bins"
  shows "layer_radii (bin_indices_of verts bins) (map planar_radius verts) (i + 1)
       = map planar_radius (bin_vertices verts bins i)"
proof -
  define a where "a = list_min (map z_of verts)"
  define b where "b = list_max (map z_of verts)"
  have step: "0 \<le> (b - a) / real bins" using assms(1) unfolding a_def b_def by simp
  have bi: "bin_indices_of verts bins
      = map (\<lambda>v. digitize (linspace a b (bins + 1)) (z_of v)) verts"
    unfolding bin_indices_of_def Let_def a_def b_def by (simp only: map_map comp_def)
  have "layer_radii (bin_indices_of verts bins) (map planar_radius verts) (i + 1)
      = map planar_radius
          (filter (\<lambda>v. digitize (linspace a b (bins + 1)) (z_of v) = i + 1) verts)"
    unfolding layer_radii_def bi by (rule layer_by_key)
  also have "\<dots> = map planar_radius
          (filter (\<lambda>v. a + real i * ((b - a) / real bins) \<le> z_of v
                        \<and> z_of v < a + real (i + 1) * ((b - a) / real bins)) verts)"
    by (simp only: digitize_linspace [OF step assms(2)])
  also have "\<dots> = map planar_radius (bin_vertices verts bins i)"
    unfolding bin_vertices_def bin_edge_def a_def b_def ..
  finally show ?thesis .
qed

text \<open>
  C6, as amended. For a mesh with a vertex and a height of at least 1e-6, and any bin
  count, the radius profile is built, has exactly \<open>bins\<close> entries, and every entry is a
  number. Every bin but the last holds the 90th percentile of the planar radii of the
  vertices whose height lies in its range when there is such a vertex, and otherwise
  the entry before it, or 0 for the first bin. What the last bin holds is left open.
\<close>

theorem radius_profile_inner_bins:
  assumes ne: "verts \<noteq> []"
    and ht: "height_tol \<le> list_max (map z_of verts) - list_min (map z_of verts)"
  shows "\<exists>prof. radius_profile verts bins = Inr prof \<and> length prof = bins
     \<and> (\<forall>i<bins. \<exists>r. prof ! i = Some r)
     \<and> (\<forall>i. i + 1 < bins \<longrightarrow>
            (bin_vertices verts bins i \<noteq> []
               \<longrightarrow> prof ! i = percentile (map planar_radius (bin_vertices verts bins i)) 90)
          \<and> (bin_vertices verts bins i = [] \<and> i = 0 \<longrightarrow> prof ! i = Some 0)
          \<and> (bin_vertices verts bins i = [] \<and> 0 < i \<longrightarrow> prof ! i = prof ! (i - 1)))"
proof -
  let ?layer = "\<lambda>i. layer_radii (bin_indices_of verts bins) (map planar_radius verts) (i + 1)"
  from radius_profile_by_index [OF ne ht, of bins] obtain prof
    where rp: "radius_profile verts bins = Inr prof" and len: "length prof = bins"
      and ent: "\<forall>i<bins. (\<exists>r. prof ! i = Some r)
          \<and> (?layer i \<noteq> [] \<longrightarrow> prof ! i = percentile (?layer i) 90)
          \<and> (?layer i = [] \<and> i = 0 \<longrightarrow> prof ! i = Some 0)
          \<and> (?layer i = [] \<and> 0 < i \<longrightarrow> prof ! i = prof ! (i - 1))"
    by blast
  have "0 < height_tol" by (simp add: height_tol_def)
  with ht have h0: "0 \<le> list_max (map z_of verts) - list_min (map z_of verts)" by simp
  have def: "\<forall>i<bins. \<exists>r. prof ! i = Some r" using ent by blast
  have inner: "(bin_vertices verts bins i \<noteq> []
               \<longrightarrow> prof ! i = percentile (map planar_radius (bin_vertices verts bins i)) 90)
          \<and> (bin_vertices verts bins i = [] \<and> i = 0 \<longrightarrow> prof ! i = Some 0)
          \<and> (bin_vertices verts bins i = [] \<and> 0 < i \<longrightarrow> prof ! i = prof ! (i - 1))"
    if i: "i + 1 < bins" for i
  proof -
    from i have ib: "i < bins" by simp
    define L where "L = ?layer i"
    have eq: "L = map planar_radius (bin_vertices verts bins i)"
      unfolding L_def by (rule layer_is_bin_vertices [OF h0 ib])
    have a: "(L \<noteq> [] \<longrightarrow> prof ! i = percentile L 90)
          \<and> (L = [] \<and> i = 0 \<longrightarrow> prof ! i = Some 0)
          \<and> (L = [] \<and> 0 < i \<longrightarrow> prof ! i = prof ! (i - 1))"
      unfolding L_def using ent ib by blast
    have e: "(L = []) = (bin_vertices verts bins i = [])" by (simp only: eq map_is_Nil_conv)
    have p: "percentile L 90 = percentile (map planar_radius (bin_vertices verts bins i)) 90"
      by (simp only: eq)
    from a e p show ?thesis by metis
  qed
  from rp len def inner show ?thesis by blast
qed

lemma inner_bins_example:
  "bin_vertices [(1, 0, 0), (0, 0, 1), (1, 0, 4)] 4 0 = [(1, 0, 0)]
   \<and> bin_vertices [(1, 0, 0), (0, 0, 1), (1, 0, 4)] 4 1 = [(0, 0, 1)]
   \<and> bin_vertices [(1, 0, 0), (0, 0, 1), (1, 0, 4)] 4 2 = []"
  by (simp add: bin_vertices_def bin_edge_def z_of_def list_min_def list_max_def)

theorem radius_profile_inner_bins_witness:
  "[(1, 0, 0), (0, 0, 1), (1, 0, 4)] \<noteq> ([] :: vec3 list)
   \<and> height_tol \<le> list_max (map z_of [(1, 0, 0), (0, 0, 1), (1, 0, 4)])
                    - list_min (map z_of [(1, 0, 0), (0, 0, 1), (1, 0, 4)])
   \<and> radius_profile [(1, 0, 0), (0, 0, 1), (1, 0, 4)] 4 = Inr [Some 1, Some 0, Some 0, Some 0]
   \<and> bin_vertices [(1, 0, 0), (0, 0, 1), (1, 0, 4)] 4 0 = [(1, 0, 0)]
   \<and> bin_vertices [(1, 0, 0), (0, 0, 1), (1, 0, 4)] 4 1 = [(0, 0, 1)]
   \<and> bin_vertices [(1, 0, 0), (0, 0, 1), (1, 0, 4)] 4 2 = []"
  using radius_profile_inner_bins [of "[(1, 0, 0), (0, 0, 1), (1, 0, 4)]" 4]
    radius_profile_example inner_bins_example
  by (simp add: z_of_def list_min_def list_max_def height_tol_def)

lemma two_rings_bins: "bin_indices_of [(1, 0, 0), (0, 1, 0), (5, 0, 1), (0, 5, 1)] 2 = [1, 1, 3, 3]"
  by (simp add: bin_indices_of_def Let_def z_of_def list_min_def list_max_def linspace_def
      digitize_def upt_rec [of _ "numeral _"] upt_rec [of _ "Suc _"])

lemma two_rings_profile:
  "radius_profile [(1, 0, 0), (0, 1, 0), (5, 0, 1), (0, 5, 1)] 2 = Inr [Some 1, Some 1]"
  by (simp add: radius_profile_def two_rings_bins Let_def z_of_def x_of_def y_of_def
      list_min_def list_max_def height_tol_def planar_radius_def r_layer_def layer_radii_def
      percentile_def upt_rec [of _ "numeral _"] upt_rec [of _ "Suc _"])

lemma flat_profile:
  "radius_profile [(1, 0, 0), (1, 0, 1 / 2000000)] 2 = Inl FlatMesh"
  by (simp add: radius_profile_def Let_def z_of_def list_min_def list_max_def height_tol_def)

text \<open>
  C6 as stated fails twice. A mesh of two rings, radius 1 at height 0 and radius 5 at
  height 1, with 2 bins: the top ring lies in the height range of the last bin, from
  1/2 to 1, and the 90th percentile of its radii is 5, yet the last entry of the
  profile is 1, the copy of the entry before it. And a mesh of positive height
  1/2000000 gets no profile at all: the segmenter stops with "Flat mesh".
\<close>

theorem top_ring_and_flat_mesh_counterexample:
  "radius_profile [(1, 0, 0), (0, 1, 0), (5, 0, 1), (0, 5, 1)] 2 = Inr [Some 1, Some 1]
   \<and> bin_edge [(1, 0, 0), (0, 1, 0), (5, 0, 1), (0, 5, 1)] 2 1 = 1 / 2
   \<and> bin_edge [(1, 0, 0), (0, 1, 0), (5, 0, 1), (0, 5, 1)] 2 2 = 1
   \<and> z_of (5, 0, 1) = 1 \<and> z_of (0, 5, 1) = 1
   \<and> planar_radius (5, 0, 1) = 5 \<and> planar_radius (0, 5, 1) = 5
   \<and> percentile [5, 5] 90 = Some 5
   \<and> 0 < list_max (map z_of [(1, 0, 0), (1, 0, 1 / 2000000)])
           - list_min (map z_of [(1, 0, 0), (1, 0, 1 / 2000000)])
   \<and> radius_profile [(1, 0, 0), (1, 0, 1 / 2000000)] 2 = Inl FlatMesh"
proof -
  have r: "planar_radius (5, 0, 1) = 5 \<and> planar_radius (0, 5, 1) = 5"
  proof -
    have "sqrt 25 = sqrt (5\<^sup>2)" by simp
    also have "\<dots> = 5" by (simp only: real_sqrt_abs abs_numeral)
    finally show ?thesis by (simp add: planar_radius_def x_of_def y_of_def)
  qed
  have p: "percentile [5, 5] 90 = Some 5" by (simp add: percentile_def Let_def)
  have e: "bin_edge [(1, 0, 0), (0, 1, 0), (5, 0, 1), (0, 5, 1)] 2 1 = 1 / 2
      \<and> bin_edge [(1, 0, 0), (0, 1, 0), (5, 0, 1), (0, 5, 1)] 2 2 = 1"
    by (simp add: bin_edge_def z_of_def list_min_def list_max_def)
  have h: "0 < list_max (map z_of [(1, 0, 0), (1, 0, 1 / 2000000)])
           - list_min (map z_of [(1, 0, 0), (1, 0, 1 / 2000000)])"
    by (simp add: z_of_def list_min_def list_max_def)
  from two_rings_profile flat_profile r p e h show ?thesis by (simp add: z_of_def)
qed

lemma group_stable_grows:
  "segments \<noteq> [] \<Longrightarrow> group_stable xs i cur segments \<noteq> []"
  by (induction xs arbitrary: i cur segments) auto

lemma group_stable_current:
  "cur \<noteq> [] \<Longrightarrow> group_stable xs i cur segments \<noteq> []"
  by (induction xs arbitrary: i cur segments) (auto simp: group_stable_grows)

lemma group_stable_none:
  "True \<notin> set xs \<Longrightarrow> group_stable xs i [] [] = []"
  by (induction xs arbitrary: i) auto

lemma group_stable_some:
  "True \<in> set xs \<Longrightarrow> group_stable xs i [] [] \<noteq> []"
proof (induction xs arbitrary: i)
  case Nil
  then show ?case by simp
next
  case (Cons x xs)
  show ?case
  proof (cases x)
    case True
    then show ?thesis by (simp add: group_stable_current)
  next
    case False
    with Cons.prems have "True \<in> set xs" by auto
    from Cons.IH [OF this] False show ?thesis by simp
  qed
qed

lemma stable_segments_empty_iff: "stable_segments xs = [] \<longleftrightarrow> True \<notin> set xs"
  unfolding stable_segments_def using group_stable_none group_stable_some by blast

lemma pick_best_all_short:
  "\<forall>seg\<in>set segs. real (length seg) < real bins * (5 / 100) \<Longrightarrow>
   pick_best bins prof segs best_score best = best"
  by (induction segs arbitrary: best_score best) simp_all

lemma fallback_nonempty: "2 \<le> bins \<Longrightarrow> [bins div 4 ..< (3 * bins) div 4] \<noteq> []"
proof -
  assume "2 \<le> bins"
  then have "bins div 4 < (3 * bins) div 4" by presburger
  then show ?thesis by simp
qed

text \<open>
  C1, as amended. With at least two bins: when no bin is stable, the segmenter prints
  the warning and takes the bins \<open>bins div 4, \<dots>, 3 * bins div 4 - 1\<close>, a non-empty
  range, as the body segment. When there are stable bins but every run of them is
  shorter than 5% of the bin count, nothing is taken in their place: the segmenter stops
  with "No valid body segment found".
\<close>

theorem select_segment_fallback:
  assumes "2 \<le> bins"
  shows "(True \<notin> set is_stable \<longrightarrow>
            select_segment bins profile_smooth is_stable
              = Inr ([no_stable_warning], [bins div 4 ..< (3 * bins) div 4])
            \<and> [bins div 4 ..< (3 * bins) div 4] \<noteq> []
            \<and> stable_segments is_stable = [])
       \<and> (True \<in> set is_stable
            \<and> (\<forall>seg\<in>set (stable_segments is_stable). real (length seg) < real bins * (5 / 100))
          \<longrightarrow> stable_segments is_stable \<noteq> []
            \<and> select_segment bins profile_smooth is_stable = Inl NoValidBodySegment)"
proof (intro conjI impI)
  assume n: "True \<notin> set is_stable"
  then show e: "stable_segments is_stable = []" by (simp add: stable_segments_empty_iff)
  show ne: "[bins div 4 ..< (3 * bins) div 4] \<noteq> []" by (rule fallback_nonempty [OF assms])
  from e ne show "select_segment bins profile_smooth is_stable
              = Inr ([no_stable_warning], [bins div 4 ..< (3 * bins) div 4])"
    by (simp add: select_segment_def Let_def)
next
  assume a: "True \<in> set is_stable
            \<and> (\<forall>seg\<in>set (stable_segments is_stable). real (length seg) < real bins * (5 / 100))"
  then show ne: "stable_segments is_stable \<noteq> []" by (simp add: stable_segments_empty_iff)
  from a have "pick_best bins profile_smooth (stable_segments is_stable) (- 1) [] = []"
    by (intro pick_best_all_short) simp
  with ne show "select_segment bins profile_smooth is_stable = Inl NoValidBodySegment"
    by (simp add: select_segment_def Let_def)
qed

lemma peak_profile_mask:
  "stable_mask (2 / 100) [0, 10, 20, 30, 40, 50, 60, 70, 80, 90, 100, 90, 80, 70, 60, 50, 40, 30, 20, 10, 0]
     = Inr [False, False, False, False, False, False, False, False, False, False,
            True, False, False, False, False, False, False, False, False, False, False]"
  by code_simp

lemma peak_profile_segments:
  "stable_segments [False, False, False, False, False, False, False, False, False, False,
            True, False, False, False, False, False, False, False, False, False, False] = [[10]]"
  by code_simp

text \<open>
  C1 as stated fails: a smoothed profile that rises to a peak and falls again, over 21
  bins with tolerance 0.02, has the single stable bin 10; its run has length 1, below
  5% of 21, and the segmenter stops with an error instead of falling back.
\<close>

theorem short_segments_exit_counterexample:
  "stable_segments [False, False, False, False, False, False, False, False, False, False,
            True, False, False, False, False, False, False, False, False, False, False] = [[10]]
   \<and> real (length [10::nat]) < real (21::nat) * (5 / 100)
   \<and> choose_segment 21 (2 / 100)
       [0, 10, 20, 30, 40, 50, 60, 70, 80, 90, 100, 90, 80, 70, 60, 50, 40, 30, 20, 10, 0]
     = Inl NoValidBodySegment"
proof -
  have "choose_segment 21 (2 / 100)
       [0, 10, 20, 30, 40, 50, 60, 70, 80, 90, 100, 90, 80, 70, 60, 50, 40, 30, 20, 10, 0]
     = Inl NoValidBodySegment"
    unfolding choose_segment_def peak_profile_mask
    by (simp add: select_segment_def peak_profile_segments Let_def)
  then show ?thesis by (simp add: peak_profile_segments)
qed

theorem select_segment_fallback_witness:
  "(2::nat) \<le> 8
   \<and> True \<notin> set [False, False, False, False, False, False, False, False]
   \<and> select_segment 8 [5, 9, 5, 9, 5, 9, 5, 9] [False, False, False, False, False, False, False, False]
       = Inr ([no_stable_warning], [2, 3, 4, 5])
   \<and> True \<in> set [False, False, False, False, False, False, False, False, False, False,
            True, False, False, False, False, False, False, False, False, False, False]
   \<and> stable_segments [False, False, False, False, False, False, False, False, False, False,
            True, False, False, False, False, False, False, False, False, False, False] = [[10]]
   \<and> select_segment 21 [0, 10, 20, 30, 40, 50, 60, 70, 80, 90, 100, 90, 80, 70, 60, 50, 40, 30, 20, 10, 0]
        [False, False, False, False, False, False, False, False, False, False,
            True, False, False, False, False, False, False, False, False, False, False]
       = Inl NoValidBodySegment"
  using select_segment_fallback [of 8 "[False, False, False, False, False, False, False, False]"
          "[5, 9, 5, 9, 5, 9, 5, 9]"]
    select_segment_fallback [of 21 "[False, False, False, False, False, False, False, False, False, False,
            True, False, False, False, False, False, False, False, False, False, False]"
          "[0, 10, 20, 30, 40, 50, 60, 70, 80, 90, 100, 90, 80, 70, 60, 50, 40, 30, 20, 10, 0]"]
  by (simp add: peak_profile_segments upt_rec [of _ "numeral _"] upt_rec [of _ "Suc _"])

lemma cross_target: "cross3 (a, b, c) target_axis = (b, - a, 0)"
  by (simp add: cross3_def target_axis_def x_of_def y_of_def z_of_def)

lemma norm_cross_target: "norm3 (cross3 (a, b, c) target_axis) = sqrt (a * a + b * b)"
  by (simp add: cross_target norm3_def dot3_def x_of_def y_of_def z_of_def add.commute)

lemma unit_z_bound:
  assumes "a * a + b * b + c * c = (1::real)"
  shows "- 1 \<le> c \<and> c \<le> 1"
proof -
  have "c * c \<le> 1" using assms by (smt (verit) zero_le_square)
  then have "c\<^sup>2 \<le> 1\<^sup>2" by (simp add: power2_eq_square)
  then have "\<bar>c\<bar> \<le> 1" by (simp add: abs_square_le_1)
  then show ?thesis by auto
qed

lemma rotated_axis:
  fixes a b c n :: real
  assumes unit: "a * a + b * b + c * c = 1" and n2: "n * n = a * a + b * b" and n0: "0 < n"
  shows "mat_vec (rotation_matrix (arccos (clip c (- 1) 1)) (b / n, - a / n, 0)) (a, b, c) = (0, 0, 1)"
proof -
  from unit_z_bound [OF unit] have cb: "- 1 \<le> c" "c \<le> 1" by auto
  then have cl: "clip c (- 1) 1 = c" by (simp add: clip_def)
  have cosa: "cos (arccos c) = c" using cb by simp
  have "1 - c\<^sup>2 = n\<^sup>2" using unit n2 by (simp add: power2_eq_square)
  then have "sqrt (1 - c\<^sup>2) = n" using n0 by simp
  then have sina: "sin (arccos c) = n" using cb by (simp add: sin_arccos)
  have "dot3 (b / n, - a / n, 0) (b / n, - a / n, 0) = (a * a + b * b) / (n * n)"
    by (simp add: dot3_def x_of_def y_of_def z_of_def add_divide_distrib add.commute)
  also have "\<dots> = (n * n) / (n * n)" by (simp only: n2)
  also have "\<dots> = 1" using n0 by simp
  finally have nd: "norm3 (b / n, - a / n, 0) = 1" by (simp add: norm3_def)
  have d: "divide3 (b / n, - a / n, 0) 1 = (b / n, - a / n, 0)"
    by (simp add: divide3_def x_of_def y_of_def z_of_def)
  have nn: "n \<noteq> 0" using n0 by simp
  have x: "(c + b / n * (b / n) * (1 - c)) * a + (b / n * (- a / n) * (1 - c) - 0 * n) * b
            + (b / n * 0 * (1 - c) + (- a / n) * n) * c = 0"
    using nn by (simp add: field_simps)
  have y: "((- a / n) * (b / n) * (1 - c) + 0 * n) * a + (c + (- a / n) * (- a / n) * (1 - c)) * b
            + ((- a / n) * 0 * (1 - c) - b / n * n) * c = 0"
    using nn by (simp add: field_simps)
  have z: "(0 * (b / n) * (1 - c) - (- a / n) * n) * a + (0 * (- a / n) * (1 - c) + b / n * n) * b
            + (c + 0 * 0 * (1 - c)) * c = 1"
    using nn unit by (simp add: field_simps)
  show ?thesis
    unfolding rotation_matrix_def mat_vec_def Let_def nd d cl cosa sina
    using x y z by (simp add: dot3_def x_of_def y_of_def z_of_def)
qed


text \<open>
  C2, as amended. For a unit principal axis \<open>p\<close>: when the cross product of \<open>p\<close> and
  the Z axis has norm above 1e-6, the rotation about the normalised cross product by the
  arccosine of the clamped dot product is applied and takes \<open>p\<close> exactly onto \<open>(0, 0, 1)\<close>.
  Otherwise no rotation is applied, \<open>p\<close> stays where it is, and \<open>p\<close> lies along the
  Z axis within the tolerance, in either direction.
\<close>

theorem alignment_of_principal_axis:
  assumes "norm3 p = 1"
  shows "(align_tol < norm3 (cross3 p target_axis)
            \<longrightarrow> align_rotation p
                  = Some (rotation_matrix (arccos (clip (dot3 p target_axis) (- 1) 1))
                            (divide3 (cross3 p target_axis) (norm3 (cross3 p target_axis))))
              \<and> apply_alignment p p = target_axis)
       \<and> (norm3 (cross3 p target_axis) \<le> align_tol
            \<longrightarrow> align_rotation p = None \<and> apply_alignment p p = p
              \<and> 1 - align_tol\<^sup>2 \<le> (z_of p)\<^sup>2)"
proof -
  obtain a b c where p: "p = (a, b, c)" by (cases p) auto
  have "dot3 p p = 1"
  proof -
    have "0 \<le> dot3 p p" by (simp add: dot3_def)
    with assms show ?thesis by (simp add: norm3_def)
  qed
  then have unit: "a * a + b * b + c * c = 1"
    by (simp add: p dot3_def x_of_def y_of_def z_of_def)
  define n where "n = sqrt (a * a + b * b)"
  have nc: "norm3 (cross3 p target_axis) = n" by (simp add: p norm_cross_target n_def)
  have n2: "n * n = a * a + b * b" by (simp add: n_def)
  have dt: "dot3 p target_axis = c" by (simp add: p dot3_def target_axis_def x_of_def y_of_def z_of_def)
  have dv: "divide3 (cross3 p target_axis) n = (b / n, - a / n, 0)"
    by (simp add: p cross_target divide3_def x_of_def y_of_def z_of_def)
  show ?thesis
  proof (intro conjI impI)
    assume big: "align_tol < norm3 (cross3 p target_axis)"
    have "0 < align_tol" by (simp add: align_tol_def)
    with big nc have n0: "0 < n" by simp
    from big show r: "align_rotation p
                  = Some (rotation_matrix (arccos (clip (dot3 p target_axis) (- 1) 1))
                            (divide3 (cross3 p target_axis) (norm3 (cross3 p target_axis))))"
      by (simp add: align_rotation_def Let_def)
    have "mat_vec (rotation_matrix (arccos (clip c (- 1) 1)) (b / n, - a / n, 0)) (a, b, c) = (0, 0, 1)"
      by (rule rotated_axis [OF unit n2 n0])
    then show "apply_alignment p p = target_axis"
      unfolding apply_alignment_def r nc dt dv by (simp add: p target_axis_def)
  next
    assume small: "norm3 (cross3 p target_axis) \<le> align_tol"
    then show none: "align_rotation p = None" by (simp add: align_rotation_def Let_def)
    then show "apply_alignment p p = p" by (simp add: apply_alignment_def)
    have "0 \<le> n" by (simp add: n_def)
    with small nc have "n * n \<le> align_tol * align_tol" by (simp add: mult_mono)
    with n2 unit have "1 - align_tol * align_tol \<le> c * c" by simp
    then show "1 - align_tol\<^sup>2 \<le> (z_of p)\<^sup>2" by (simp add: p z_of_def power2_eq_square)
  qed
qed

theorem alignment_of_principal_axis_witness:
  "norm3 (1, 0, 0) = 1
   \<and> align_tol < norm3 (cross3 (1, 0, 0) target_axis)
   \<and> apply_alignment (1, 0, 0) (1, 0, 0) = target_axis
   \<and> norm3 (0, 0, - 1) = 1
   \<and> norm3 (cross3 (0, 0, - 1) target_axis) \<le> align_tol
   \<and> apply_alignment (0, 0, - 1) (0, 0, - 1) = (0, 0, - 1)"
  using alignment_of_principal_axis [of "(1, 0, 0)"] alignment_of_principal_axis [of "(0, 0, - 1)"]
  by (simp add: norm3_def dot3_def cross3_def target_axis_def align_tol_def x_of_def y_of_def z_of_def)

text \<open>
  C2 as stated fails for an axis that points opposite to the reference axis: the cross
  product of \<open>(0, 0, -1)\<close> and \<open>(0, 0, 1)\<close> is zero, the rotation is skipped, and the
  principal direction is still \<open>(0, 0, -1)\<close> after the step.
\<close>

theorem opposite_axis_counterexample:
  "norm3 (0, 0, - 1) = 1
   \<and> align_rotation (0, 0, - 1) = None
   \<and> apply_alignment (0, 0, - 1) (0, 0, - 1) = (0, 0, - 1)
   \<and> dot3 (apply_alignment (0, 0, - 1) (0, 0, - 1)) target_axis = - 1"
  by (simp add: apply_alignment_def align_rotation_def Let_def norm3_def dot3_def cross3_def
      target_axis_def align_tol_def x_of_def y_of_def z_of_def)

section \<open>Theorems: SeamPathFinder\<close>

lemma neighbors_iff: "u \<in> set (neighbors m v) \<longleftrightarrow> adjacent m v u"
  by (auto simp: neighbors_def adjacent_def split: if_splits) force+

lemma adjacent_sym: "adjacent m u v \<Longrightarrow> adjacent m v u"
  by (auto simp: adjacent_def)

lemma ball_step:
  "v \<in> set (ball m s (Suc n)) \<longleftrightarrow>
     v \<in> set (ball m s n) \<or> (\<exists>u\<in>set (ball m s n). adjacent m u v)"
  by (auto simp: neighbors_iff)

lemma ball_mono: "k \<le> n \<Longrightarrow> v \<in> set (ball m s k) \<Longrightarrow> v \<in> set (ball m s n)"
proof (induction n)
  case 0
  then show ?case by simp
next
  case (Suc n)
  show ?case
  proof (cases "k = Suc n")
    case True
    with Suc.prems show ?thesis by simp
  next
    case False
    with Suc.prems have "k \<le> n" by simp
    from Suc.IH [OF this Suc.prems(2)] show ?thesis by (simp add: ball_step)
  qed
qed

lemma walk_in_ball:
  "is_walk m q \<Longrightarrow> hd q \<in> set (ball m s k) \<Longrightarrow> last q \<in> set (ball m s (k + length q - 1))"
proof (induction m q arbitrary: k rule: is_walk.induct)
  case (1 m)
  then show ?case by simp
next
  case (2 m v)
  then show ?case by simp
next
  case (3 m u v rest)
  from "3.prems" have adj: "adjacent m u v" and w: "is_walk m (v # rest)"
    and u: "u \<in> set (ball m s k)" by simp_all
  from u adj have "v \<in> set (ball m s (Suc k))" by (auto simp: ball_step simp del: ball.simps)
  then have "hd (v # rest) \<in> set (ball m s (Suc k))" by simp
  from "3.IH" [OF w this] show ?case by simp
qed

lemma is_walk_snoc:
  "is_walk m p \<Longrightarrow> adjacent m (last p) t \<Longrightarrow> is_walk m (p @ [t])"
  by (induction m p rule: is_walk.induct) simp_all

lemma hd_append_nonempty: "p \<noteq> [] \<Longrightarrow> hd (p @ [t]) = hd p"
  by (cases p) simp_all

lemma trace_back_correct:
  "t \<in> set (ball m s n) \<Longrightarrow> (\<forall>k<n. t \<notin> set (ball m s k)) \<Longrightarrow>
   length (trace_back m s n t) = Suc n \<and> hd (trace_back m s n t) = s
   \<and> last (trace_back m s n t) = t \<and> is_walk m (trace_back m s n t)"
proof (induction n arbitrary: t)
  case 0
  then show ?case by simp
next
  case (Suc n)
  from Suc.prems(2) have notn: "t \<notin> set (ball m s n)" by simp
  with Suc.prems(1) obtain u0 where u0: "u0 \<in> set (ball m s n)" "adjacent m u0 t"
    using ball_step [of t m s n] by blast
  then have "u0 \<in> set (neighbors m t)" by (simp add: neighbors_iff adjacent_sym)
  with u0(1) have "find (\<lambda>u. u \<in> set (ball m s n)) (neighbors m t) \<noteq> None"
    by (auto simp: find_None_iff)
  then obtain u where f: "find (\<lambda>u. u \<in> set (ball m s n)) (neighbors m t) = Some u" by auto
  then have ub: "u \<in> set (ball m s n)" and un: "u \<in> set (neighbors m t)"
    by (auto simp: find_Some_iff)
  then have adj: "adjacent m u t" by (simp add: neighbors_iff adjacent_sym)
  have least: "\<forall>k<n. u \<notin> set (ball m s k)"
  proof (intro allI impI notI)
    fix k assume k: "k < n" and "u \<in> set (ball m s k)"
    with adj have "t \<in> set (ball m s (Suc k))" by (auto simp: ball_step simp del: ball.simps)
    moreover from k have "Suc k \<le> n" by simp
    ultimately have "t \<in> set (ball m s n)" by (rule ball_mono [rotated])
    with notn show False by simp
  qed
  from Suc.IH [OF ub least] have ih: "length (trace_back m s n u) = Suc n"
    "hd (trace_back m s n u) = s" "last (trace_back m s n u) = u"
    "is_walk m (trace_back m s n u)" by simp_all
  from ih(1) have ne: "trace_back m s n u \<noteq> []" by auto
  have tb: "trace_back m s (Suc n) t = trace_back m s n u @ [t]" using f by simp
  show ?case unfolding tb
    using ih ne adj by (simp add: hd_append_nonempty is_walk_snoc)
qed

lemma bfs_distance_least:
  "bfs_distance m s t = Some n \<Longrightarrow>
   t \<in> set (ball m s n) \<and> (\<forall>k<n. t \<notin> set (ball m s k))"
proof -
  assume "bfs_distance m s t = Some n"
  then obtain i where i: "i < length [0 ..< Suc (length (nodes m))]"
    "t \<in> set (ball m s ([0 ..< Suc (length (nodes m))] ! i))"
    "n = [0 ..< Suc (length (nodes m))] ! i"
    "\<forall>j<i. t \<notin> set (ball m s ([0 ..< Suc (length (nodes m))] ! j))"
    unfolding bfs_distance_def find_Some_iff by blast
  from i(1) have il: "i < Suc (length (nodes m))" by simp
  have ni: "n = i" using i(3) il nth_upt [of 0 i "Suc (length (nodes m))"] by simp
  have a: "t \<in> set (ball m s n)" using i(2) i(3) by simp
  have b: "\<forall>k<n. t \<notin> set (ball m s k)"
  proof (intro allI impI)
    fix k assume k: "k < n"
    with ni il have "k < Suc (length (nodes m))" by simp
    then have "[0 ..< Suc (length (nodes m))] ! k = k"
      using nth_upt [of 0 k "Suc (length (nodes m))"] by simp
    with i(4) k ni show "t \<notin> set (ball m s k)" by metis
  qed
  from a b show ?thesis by blast
qed

lemma shortest_path_correct:
  assumes "shortest_path m s t = Inr path"
  shows "hd path = s \<and> last path = t \<and> is_walk m path
       \<and> (\<forall>q. is_walk m q \<and> hd q = s \<and> last q = t \<longrightarrow> length path \<le> length q)"
proof -
  from assms obtain n where n: "bfs_distance m s t = Some n" and p: "path = trace_back m s n t"
    by (auto simp: shortest_path_def split: option.splits)
  from bfs_distance_least [OF n] have b: "t \<in> set (ball m s n)" "\<forall>k<n. t \<notin> set (ball m s k)"
    by simp_all
  from trace_back_correct [OF b] p have c: "length path = Suc n" "hd path = s" "last path = t"
    "is_walk m path" by simp_all
  have "length path \<le> length q" if q: "is_walk m q" "hd q = s" "last q = t" for q
  proof (rule ccontr)
    assume "\<not> length path \<le> length q"
    with c(1) have lt: "length q < Suc n" by simp
    from q(1) have qne: "q \<noteq> []" by (cases q) auto
    have "hd q \<in> set (ball m s 0)" using q(2) by simp
    from walk_in_ball [OF q(1) this] q(3) have "t \<in> set (ball m s (length q - 1))" by simp
    moreover from lt qne have "length q - 1 < n" by (cases q) auto
    ultimately show False using b(2) by blast
  qed
  with c show ?thesis by blast
qed


lemma argmin_from_bound:
  "best_i < i \<Longrightarrow> argmin_from xs i best_i best_v < i + length xs"
proof (induction xs arbitrary: i best_i best_v)
  case Nil
  then show ?case by simp
next
  case (Cons x xs)
  have a: "argmin_from xs (Suc i) i x < Suc i + length xs"
    by (rule Cons.IH) simp
  have b: "argmin_from xs (Suc i) best_i best_v < Suc i + length xs"
    by (rule Cons.IH) (use Cons.prems in simp)
  from a b show ?case by simp
qed

lemma argmin_bound: "xs \<noteq> [] \<Longrightarrow> argmin xs < length xs"
proof (cases xs)
  case Nil
  then show "xs \<noteq> [] \<Longrightarrow> ?thesis" by simp
next
  case (Cons x rest)
  have "argmin_from rest 1 0 x < 1 + length rest" by (rule argmin_from_bound) simp
  with Cons show ?thesis by (simp add: argmin_def)
qed

lemma start_idx_top: "top_indices m \<noteq> [] \<Longrightarrow> start_idx m \<in> set (top_indices m)"
  unfolding start_idx_def
  by (rule nth_mem) (metis argmin_bound length_map map_is_Nil_conv)

lemma end_idx_bottom: "bottom_indices m \<noteq> [] \<Longrightarrow> end_idx m \<in> set (bottom_indices m)"
  unfolding end_idx_def Let_def
  by (rule nth_mem) (metis argmin_bound length_map map_is_Nil_conv)

lemma top_bottom_disjoint: "i \<in> set (top_indices m) \<Longrightarrow> i \<notin> set (bottom_indices m)"
  by (auto simp: top_indices_def bottom_indices_def)

text \<open>
  C5. When the seam finder returns a seam, its vertex list starts at the chosen start
  vertex, which is in the top group, ends at the chosen end vertex, which is in the
  bottom group, is a walk in the vertex-adjacency graph (consecutive vertices are
  adjacent), has at least two vertices, and no walk from the start vertex to the end
  vertex is shorter; each seam entry carries the coordinates of its vertex.
\<close>

theorem seam_path_properties:
  assumes "extract_seam m = Inr seam"
  shows "hd (map fst seam) = start_idx m \<and> start_idx m \<in> set (top_indices m)
       \<and> last (map fst seam) = end_idx m \<and> end_idx m \<in> set (bottom_indices m)
       \<and> is_walk m (map fst seam)
       \<and> 2 \<le> length seam
       \<and> (\<forall>q. is_walk m q \<and> hd q = start_idx m \<and> last q = end_idx m
              \<longrightarrow> length seam \<le> length q)
       \<and> seam = map (\<lambda>idx. (idx, vertices m ! idx)) (map fst seam)"
proof -
  from assms obtain path where sp: "shortest_path m (start_idx m) (end_idx m) = Inr path"
    and seam: "seam = map (\<lambda>idx. (idx, vertices m ! idx)) path"
    and top: "top_indices m \<noteq> []" and bot: "bottom_indices m \<noteq> []"
    by (auto simp: extract_seam_def split: if_splits sum.splits)
  have fs: "map fst seam = path" by (simp add: seam comp_def)
  have len: "length seam = length path" by (simp add: seam)
  from shortest_path_correct [OF sp] have c: "hd path = start_idx m" "last path = end_idx m"
    "is_walk m path"
    "\<forall>q. is_walk m q \<and> hd q = start_idx m \<and> last q = end_idx m \<longrightarrow> length path \<le> length q"
    by simp_all
  note st = start_idx_top [OF top] and en = end_idx_bottom [OF bot]
  from top_bottom_disjoint [OF st] en have ne: "start_idx m \<noteq> end_idx m" by auto
  have two: "2 \<le> length path"
  proof (cases path)
    case Nil
    with c(3) show ?thesis by simp
  next
    case (Cons v rest)
    show ?thesis
    proof (cases rest)
      case Nil
      with Cons c(1,2) ne show ?thesis by simp
    next
      case (Cons w rest')
      with \<open>path = v # rest\<close> show ?thesis by simp
    qed
  qed
  show ?thesis unfolding fs len using c st en two seam by simp
qed

lemma strip_boundary: "boundary_indices strip_mesh = [0, 1, 2, 3, 4, 5]"
  by code_simp

lemma strip_z_mean: "z_mean strip_mesh = 1"
  by (simp add: z_mean_def z_values_def strip_boundary mean_def)
     (simp add: strip_mesh_def z_of_def)

lemma strip_top: "top_indices strip_mesh = [0, 1]"
  by (simp add: top_indices_def strip_boundary strip_z_mean)
     (simp add: strip_mesh_def z_of_def)

lemma strip_bottom: "bottom_indices strip_mesh = [4, 5]"
  by (simp add: bottom_indices_def strip_boundary strip_z_mean)
     (simp add: strip_mesh_def z_of_def)

lemma strip_start: "start_idx strip_mesh = 0"
  by (simp add: start_idx_def strip_top argmin_def)
     (simp add: strip_mesh_def x_of_def)

lemma two_less_sqrt_five: "2 < sqrt 5"
  by (rule real_less_rsqrt) simp

lemma strip_end: "end_idx strip_mesh = 4"
  using two_less_sqrt_five
  by (simp add: end_idx_def strip_start strip_bottom Let_def)
     (simp add: strip_mesh_def argmin_def norm3_def dot3_def sub3_def x_of_def y_of_def z_of_def)

lemma strip_path: "shortest_path strip_mesh 0 4 = Inr [0, 2, 4]"
  by code_simp

lemma strip_valid: "valid_faces strip_mesh"
  by (simp add: valid_faces_def strip_mesh_def)

lemma strip_seam:
  "extract_seam strip_mesh = Inr [(0, (0, 0, 2)), (2, (0, 0, 1)), (4, (0, 0, 0))]"
  by (simp add: extract_seam_def strip_valid strip_boundary strip_top strip_bottom strip_start
      strip_end strip_path)
     (simp add: strip_mesh_def)


lemma neighbors_in_nodes: "u \<in> set (neighbors m v) \<Longrightarrow> u \<in> set (nodes m)"
  by (auto simp: neighbors_iff adjacent_def nodes_def) force+

lemma ball_in_nodes: "set (ball m s n) \<subseteq> insert s (set (nodes m))"
  by (induction n) (auto dest: neighbors_in_nodes)

lemma ball_set_Suc:
  "set (ball m s (Suc n)) = set (ball m s n) \<union> (\<Union>v\<in>set (ball m s n). set (neighbors m v))"
  by auto

lemma ball_stable:
  assumes "set (ball m s (Suc k)) = set (ball m s k)"
  shows "set (ball m s (k + j)) = set (ball m s k)"
proof (induction j)
  case 0
  then show ?case by simp
next
  case (Suc j)
  have "set (ball m s (k + Suc j))
      = set (ball m s (k + j)) \<union> (\<Union>v\<in>set (ball m s (k + j)). set (neighbors m v))"
    using ball_set_Suc [of m s "k + j"] by simp
  also have "\<dots> = set (ball m s k) \<union> (\<Union>v\<in>set (ball m s k). set (neighbors m v))"
    by (simp only: Suc.IH)
  also have "\<dots> = set (ball m s (Suc k))" by (simp only: ball_set_Suc)
  finally show ?case by (simp only: assms)
qed

lemma ball_card_grows:
  "\<forall>k<n. set (ball m s (Suc k)) \<noteq> set (ball m s k) \<Longrightarrow> Suc n \<le> card (set (ball m s n))"
proof (induction n)
  case 0
  then show ?case by simp
next
  case (Suc n)
  from Suc.prems have "\<forall>k<n. set (ball m s (Suc k)) \<noteq> set (ball m s k)" by simp
  from Suc.IH [OF this] have ih: "Suc n \<le> card (set (ball m s n))" .
  from Suc.prems have ne: "set (ball m s (Suc n)) \<noteq> set (ball m s n)" by simp
  have "set (ball m s n) \<subseteq> set (ball m s (Suc n))" by (simp only: ball_set_Suc) blast
  with ne have "set (ball m s n) \<subset> set (ball m s (Suc n))" by blast
  then have "card (set (ball m s n)) < card (set (ball m s (Suc n)))"
    by (intro psubset_card_mono) simp_all
  with ih show ?case by simp
qed

lemma ball_becomes_stable:
  "\<exists>k\<le>length (nodes m). set (ball m s (Suc k)) = set (ball m s k)"
proof (rule ccontr)
  assume "\<not> ?thesis"
  then have "\<forall>k<Suc (length (nodes m)). set (ball m s (Suc k)) \<noteq> set (ball m s k)"
    by (simp add: less_Suc_eq_le)
  from ball_card_grows [OF this]
  have "Suc (Suc (length (nodes m))) \<le> card (set (ball m s (Suc (length (nodes m)))))" .
  also have "\<dots> \<le> card (insert s (set (nodes m)))"
    by (intro card_mono ball_in_nodes) simp
  also have "\<dots> \<le> Suc (card (set (nodes m)))" by (simp add: card_insert_if)
  also have "\<dots> \<le> Suc (length (nodes m))" by (simp add: card_length)
  finally show False by simp
qed

lemma ball_saturates:
  assumes "v \<in> set (ball m s j)"
  shows "v \<in> set (ball m s (length (nodes m)))"
proof -
  from ball_becomes_stable [of m s] obtain k where k: "k \<le> length (nodes m)"
    and st: "set (ball m s (Suc k)) = set (ball m s k)" by blast
  have "v \<in> set (ball m s k)"
  proof (cases "j \<le> k")
    case True
    from ball_mono [OF True assms] show ?thesis .
  next
    case False
    then have "j = k + (j - k)" by simp
    with ball_stable [OF st, of "j - k"] assms show ?thesis by simp
  qed
  from ball_mono [OF k this] show ?thesis .
qed

lemma shortest_path_complete:
  assumes "is_walk m q" and "hd q = s" and "last q = t"
  shows "\<exists>path. shortest_path m s t = Inr path"
proof -
  have "hd q \<in> set (ball m s 0)" using assms(2) by simp
  from walk_in_ball [OF assms(1) this] assms(3) have "t \<in> set (ball m s (length q - 1))" by simp
  then have "t \<in> set (ball m s (length (nodes m)))" by (rule ball_saturates)
  then have "bfs_distance m s t \<noteq> None"
    unfolding bfs_distance_def find_None_iff
    by (metis atLeastLessThan_iff lessI set_upt zero_le)
  then show ?thesis by (auto simp: shortest_path_def)
qed

text \<open>
  The search gives up only when there is no walk at all: a mesh that passes the guards
  and has some walk from the start vertex to the end vertex gets its seam.
\<close>

lemma extract_seam_succeeds:
  assumes "valid_faces m" and "boundary_indices m \<noteq> []"
    and "top_indices m \<noteq> []" and "bottom_indices m \<noteq> []"
    and "is_walk m q" and "hd q = start_idx m" and "last q = end_idx m"
  shows "\<exists>seam. extract_seam m = Inr seam"
proof -
  from shortest_path_complete [OF assms(5-7)] obtain path
    where "shortest_path m (start_idx m) (end_idx m) = Inr path" by blast
  with assms(1-4) show ?thesis by (simp add: extract_seam_def)
qed

theorem seam_path_properties_witness:
  "extract_seam strip_mesh = Inr [(0, (0, 0, 2)), (2, (0, 0, 1)), (4, (0, 0, 0))]
   \<and> start_idx strip_mesh = 0 \<and> 0 \<in> set (top_indices strip_mesh)
   \<and> end_idx strip_mesh = 4 \<and> 4 \<in> set (bottom_indices strip_mesh)
   \<and> is_walk strip_mesh [0, 2, 4]
   \<and> (2::nat) \<le> length [(0::nat, (0::real, 0::real, 2::real)), (2, (0, 0, 1)), (4, (0, 0, 0))]"
  using seam_path_properties [OF strip_seam]
  by (simp add: strip_seam strip_start strip_end strip_top strip_bottom)

text \<open>
  C4 fails on the strip mesh: its six vertices are all boundary vertices, their mean
  height is 1, and the two vertices of the middle row, at height 1, pass neither the
  test \<open>z > z_mean\<close> nor the test \<open>z < z_mean\<close>: vertex 2 is in neither group.
\<close>

theorem mean_height_vertex_in_no_group:
  "boundary_indices strip_mesh = [0, 1, 2, 3, 4, 5]
   \<and> z_of (vertices strip_mesh ! 2) = 1 \<and> z_mean strip_mesh = 1
   \<and> top_indices strip_mesh = [0, 1] \<and> bottom_indices strip_mesh = [4, 5]
   \<and> 2 \<in> set (boundary_indices strip_mesh)
   \<and> 2 \<notin> set (top_indices strip_mesh) \<and> 2 \<notin> set (bottom_indices strip_mesh)"
  by (simp add: strip_boundary strip_z_mean strip_top strip_bottom)
     (simp add: strip_mesh_def z_of_def)

end
